theory Spec2Isabelle
  imports Main
begin

unbundle bit_operations_syntax

section \<open>Python values used by the library\<close>

text \<open>
  The exceptions the modelled functions raise. Every function that can raise returns
  a sum, with the exception on the left.
\<close>

datatype error = ValueError | IndexError | ProtocolError | TypeError

text \<open>The characters \<open>str.lstrip()\<close>, \<open>str.split()\<close> and the regular expression class
  \<open>\s\<close> treat as whitespace: space, tab, newline, vertical tab, form feed, carriage return.\<close>

definition isspace :: "char \<Rightarrow> bool" where
  "isspace c = (c \<in> set [CHR '' '', CHR 0x09, CHR 0x0A, CHR 0x0B, CHR 0x0C, CHR 0x0D])"

definition lstrip :: "string \<Rightarrow> string" where
  "lstrip s = dropWhile isspace s"

definition rstrip :: "string \<Rightarrow> string" where
  "rstrip s = rev (dropWhile isspace (rev s))"

definition strip :: "string \<Rightarrow> string" where
  "strip s = rstrip (lstrip s)"

definition startswith :: "string \<Rightarrow> string \<Rightarrow> bool" where
  "startswith s p = (take (length p) s = p)"

definition endswith :: "string \<Rightarrow> string \<Rightarrow> bool" where
  "endswith s p = (length p \<le> length s \<and> drop (length s - length p) s = p)"

text \<open>\<open>s.find(c, start)\<close> for a one-character needle and \<open>start \<ge> 0\<close>: the index of the
  first occurrence at or after \<open>start\<close>, or \<open>-1\<close>.\<close>

definition find_chr :: "string \<Rightarrow> char \<Rightarrow> int \<Rightarrow> int" where
  "find_chr s c start =
     (let rest = drop (nat start) s
      in if c \<in> set rest then start + int (length (takeWhile (\<lambda>x. x \<noteq> c) rest)) else - 1)"

text \<open>\<open>s.split(c, 1)\<close> when \<open>c\<close> occurs in \<open>s\<close>: the text before the first occurrence and
  the text after it.\<close>

definition split1 :: "char \<Rightarrow> string \<Rightarrow> string \<times> string" where
  "split1 c s = (takeWhile (\<lambda>x. x \<noteq> c) s, drop 1 (dropWhile (\<lambda>x. x \<noteq> c) s))"

text \<open>\<open>s.replace(old, new)\<close>: every non-overlapping occurrence, from the left.\<close>

function replace :: "string \<Rightarrow> string \<Rightarrow> string \<Rightarrow> string" where
  "replace s old new =
     (if s = [] \<or> old = [] then s
      else if take (length old) s = old then new @ replace (drop (length old) s) old new
      else hd s # replace (tl s) old new)"
  by pat_completeness auto
termination
  by (relation "measure (\<lambda>(s, old, new). length s)") (auto simp: neq_Nil_conv)

text \<open>\<open>sep.join(xs)\<close>.\<close>

fun join :: "string \<Rightarrow> string list \<Rightarrow> string" where
  "join sep [] = []"
| "join sep [x] = x"
| "join sep (x # y # ys) = x @ sep @ join sep (y # ys)"

text \<open>\<open>s.split()\<close> without arguments: the maximal runs of non-whitespace characters.\<close>

function split_ws :: "string \<Rightarrow> string list" where
  "split_ws s =
     (let t = dropWhile isspace s
      in if t = [] then []
         else takeWhile (\<lambda>c. \<not> isspace c) t # split_ws (dropWhile (\<lambda>c. \<not> isspace c) t))"
  by pat_completeness auto
termination
proof (relation "measure length", goal_cases)
  case 1
  show ?case by simp
next
  case (2 s t)
  have a: "length (dropWhile (\<lambda>c. \<not> isspace c) t) \<le> length t"
    by (rule length_dropWhile_le)
  have b: "length t \<le> length s"
    using 2(1) by (simp add: length_dropWhile_le)
  from 2(2) obtain c cs where t: "t = c # cs" by (meson neq_Nil_conv)
  have c: "\<not> isspace c"
    using 2(1) t by (metis hd_dropWhile list.sel(1) list.simps(3))
  have "length (dropWhile (\<lambda>c. \<not> isspace c) t) < length t"
    using t c length_dropWhile_le [of "\<lambda>c. \<not> isspace c" cs] by simp
  with b show ?case by simp
qed

section \<open>Control messages (stem/response/__init__.py)\<close>

text \<open>
  A \<open>ControlMessage\<close> holds its parsed lines, each a triple (status code, divider,
  content), and the raw socket data.
\<close>

record control_message =
  parsed_content :: "(string \<times> string \<times> string) list"
  raw_content :: string

text \<open>\<open>ControlMessage.__init__\<close>: an empty \<open>parsed_content\<close> is refused.\<close>

definition ControlMessage :: "(string \<times> string \<times> string) list \<Rightarrow> string \<Rightarrow> error + control_message" where
  "ControlMessage pc raw =
     (if pc = [] then Inl ValueError
      else Inr \<lparr>parsed_content = pc, raw_content = raw\<rparr>)"

text \<open>\<open>ControlMessage.content\<close> and \<open>ControlMessage.__len__\<close>.\<close>

definition content :: "'a control_message_scheme \<Rightarrow> (string \<times> string \<times> string) list" where
  "content m = parsed_content m"

definition len :: "'a control_message_scheme \<Rightarrow> nat" where
  "len m = length (parsed_content m)"

text \<open>
  \<open>SingleLineResponse\<close> is a \<open>ControlMessage\<close> whose \<open>_parse_message\<close> has set the
  attributes \<open>code\<close> and \<open>message\<close>.
\<close>

record single_line_response = control_message +
  code :: string
  message :: string

text \<open>\<open>SingleLineResponse._parse_message\<close>, as \<open>convert("SINGLELINE", m)\<close> runs it.\<close>

definition parse_message :: "control_message \<Rightarrow> error + single_line_response" where
  "parse_message m =
     (let c = content m
      in if length c > 1 then Inl ProtocolError
         else if length c = 0 then Inl ProtocolError
         else (case c ! 0 of (cd, _, msg) \<Rightarrow>
                 Inr \<lparr>parsed_content = parsed_content m, raw_content = raw_content m,
                      code = cd, message = msg\<rparr>))"

text \<open>\<open>SingleLineResponse.is_ok\<close>; \<open>content()[0]\<close> raises \<open>IndexError\<close> on an empty list.\<close>

definition is_ok :: "single_line_response \<Rightarrow> bool \<Rightarrow> error + bool" where
  "is_ok r strict =
     (case content r of
        [] \<Rightarrow> Inl IndexError
      | l # _ \<Rightarrow> if strict then Inr (l = (''250'', '' '', ''OK''))
                 else Inr (fst l = ''250''))"

section \<open>Control lines (stem/response/__init__.py)\<close>

text \<open>
  \<open>_get_quote_indices\<close>. The inner \<open>while\<close> loop skips quotes that follow a backslash;
  it reads \<open>line[quote_index - 1]\<close> only at an index \<open>find\<close> returned, which is below the
  length of the line.
\<close>

function skip_escaped :: "string \<Rightarrow> int \<Rightarrow> int" where
  "skip_escaped line quote_index =
     (if quote_index \<ge> 1 \<and> quote_index \<le> int (length line)
         \<and> line ! nat (quote_index - 1) = CHR 0x5C
      then skip_escaped line (find_chr line CHR 0x22 (quote_index + 1))
      else quote_index)"
  by pat_completeness auto
termination
proof (relation "measure (\<lambda>(line, q). if q < 0 then 0 else Suc (length line) - nat q)", goal_cases)
  case 1
  show ?case by simp
next
  case (2 line q)
  let ?rest = "drop (nat (q + 1)) line"
  show ?case
  proof (cases "CHR 0x22 \<in> set ?rest")
    case False
    from 2 have "nat q < Suc (length line)" and "\<not> q < 0" by linarith+
    with False show ?thesis by (simp add: find_chr_def)
  next
    case True
    then have ne: "?rest \<noteq> []" by auto
    have tw: "CHR 0x22 \<in> set xs \<Longrightarrow> length (takeWhile (\<lambda>x. x \<noteq> CHR 0x22) xs) < length xs"
      for xs :: string
      by (induction xs) auto
    have "length (takeWhile (\<lambda>x. x \<noteq> CHR 0x22) ?rest) < length ?rest"
      using True by (rule tw)
    with 2 True show ?thesis
      by (simp add: find_chr_def Let_def) linarith
  qed
qed

definition next_quote :: "string \<Rightarrow> bool \<Rightarrow> int \<Rightarrow> int" where
  "next_quote line escaped quote_index =
     (let q = find_chr line CHR 0x22 (quote_index + 1)
      in if escaped then skip_escaped line q else q)"

definition get_quote_indices :: "string \<Rightarrow> bool \<Rightarrow> int \<times> int" where
  "get_quote_indices line escaped =
     (let q1 = next_quote line escaped (- 1);
          q2 = next_quote line escaped q1
      in (q1, q2))"

text \<open>
  \<open>CONTROL_ESCAPES\<close>, in the order the source lists the entries (the order of
  \<open>dict.items()\<close> is the interpreter's).
\<close>

definition CONTROL_ESCAPES :: "(string \<times> string) list" where
  "CONTROL_ESCAPES =
     [([CHR 0x5C, CHR 0x5C], [CHR 0x5C]), ([CHR 0x5C, CHR 0x22], [CHR 0x22]),
      ([CHR 0x5C, CHR 0x27], [CHR 0x27]), ([CHR 0x5C, CHR ''r''], [CHR 0x0D]),
      ([CHR 0x5C, CHR ''n''], [CHR 0x0A]), ([CHR 0x5C, CHR ''t''], [CHR 0x09])]"

definition unescape :: "string \<Rightarrow> string" where
  "unescape s = foldl (\<lambda>e (esc_sequence, replacement). replace e esc_sequence replacement) s CONTROL_ESCAPES"

text \<open>\<open>_parse_entry\<close>: the next entry and the remainder, or the exception raised.\<close>

definition parse_entry :: "string \<Rightarrow> bool \<Rightarrow> bool \<Rightarrow> error + (string \<times> string)" where
  "parse_entry line quoted escaped =
     (if line = [] then Inl IndexError
      else if quoted then
        (case get_quote_indices line escaped of (start_quote, end_quote) \<Rightarrow>
           if start_quote \<noteq> 0 \<or> end_quote = - 1 then Inl ValueError
           else let next_entry = drop 1 (take (nat end_quote) line);
                    remainder = drop (nat (end_quote + 1)) line
                in Inr (if escaped then unescape next_entry else next_entry, lstrip remainder))
      else
        (case (if CHR '' '' \<in> set line then split1 CHR '' '' line else (line, [])) of
           (next_entry, remainder) \<Rightarrow>
             Inr (if escaped then unescape next_entry else next_entry, lstrip remainder)))"

text \<open>
  A \<open>ControlLine\<close> is the immutable string and the mutable remainder; the methods return
  the line with its remainder updated.
\<close>

record control_line =
  line_value :: string
  line_remainder :: string

definition ControlLine :: "string \<Rightarrow> control_line" where
  "ControlLine v = \<lparr>line_value = v, line_remainder = v\<rparr>"

definition is_empty :: "control_line \<Rightarrow> bool" where
  "is_empty l = (line_remainder l = [])"

definition is_next_quoted :: "control_line \<Rightarrow> bool \<Rightarrow> bool" where
  "is_next_quoted l escaped =
     (case get_quote_indices (line_remainder l) escaped of
        (start_quote, end_quote) \<Rightarrow> start_quote = 0 \<and> end_quote \<noteq> - 1)"

definition pop :: "control_line \<Rightarrow> bool \<Rightarrow> bool \<Rightarrow> error + (string \<times> control_line)" where
  "pop l quoted escaped =
     (case parse_entry (line_remainder l) quoted escaped of
        Inl e \<Rightarrow> Inl e
      | Inr (next_entry, remainder) \<Rightarrow> Inr (next_entry, l\<lparr>line_remainder := remainder\<rparr>))"

text \<open>
  \<open>KEY_ARG.match\<close> for the pattern \<open>^(\S+)=\<close>: the greedy group takes the longest
  non-empty run of non-whitespace characters that is followed by \<open>=\<close>. The result is the
  group and the end of the match.
\<close>

definition KEY_ARG_match :: "string \<Rightarrow> (string \<times> nat) option" where
  "KEY_ARG_match s =
     (let run = takeWhile (\<lambda>c. \<not> isspace c) s;
          ends = filter (\<lambda>i. run ! i = CHR ''='') [1..<length run]
      in if ends = [] then None else Some (take (last ends) run, Suc (last ends)))"

definition pop_mapping :: "control_line \<Rightarrow> bool \<Rightarrow> bool \<Rightarrow> error + ((string \<times> string) \<times> control_line)" where
  "pop_mapping l quoted escaped =
     (if is_empty l then Inl IndexError
      else case KEY_ARG_match (line_remainder l) of
        None \<Rightarrow> Inl ValueError
      | Some (key, e) \<Rightarrow>
          (case parse_entry (drop e (line_remainder l)) quoted escaped of
             Inl err \<Rightarrow> Inl err
           | Inr (next_entry, remainder) \<Rightarrow>
               Inr ((key, next_entry), l\<lparr>line_remainder := remainder\<rparr>)))"

text \<open>
  The specification's wording of \<open>is_next_quoted\<close> (section 4.3): the remaining content
  begins with a double quote and contains a closing double quote, where a quote that follows
  a backslash does not count when escapes are requested.
\<close>

definition begins_with_quoted_value :: "string \<Rightarrow> bool \<Rightarrow> bool" where
  "begins_with_quoted_value s escaped =
     (s \<noteq> [] \<and> hd s = CHR 0x22 \<and>
      list_ex (\<lambda>i. s ! i = CHR 0x22 \<and> (escaped \<longrightarrow> s ! (i - 1) \<noteq> CHR 0x5C)) [1..<length s])"

text \<open>
  The loop of the tokenizer's callers: \<open>pop()\<close> with its default arguments, repeated until
  \<open>is_empty()\<close>. Each unquoted pop shortens the remainder, so the loop ends.
\<close>

lemma parse_entry_unquoted_shorter:
  assumes "parse_entry line False escaped = Inr (e, r)"
  shows "length r < length line"
proof -
  have ne: "line \<noteq> []" using assms by (auto simp: parse_entry_def)
  show ?thesis
  proof (cases "CHR '' '' \<in> set line")
    case True
    then have r: "r = lstrip (drop 1 (dropWhile (\<lambda>x. x \<noteq> CHR '' '') line))"
      using assms ne by (auto simp: parse_entry_def split1_def)
    have "dropWhile (\<lambda>x. x \<noteq> CHR '' '') line \<noteq> []"
      using True by (simp add: dropWhile_eq_Nil_conv)
    then have "length (drop 1 (dropWhile (\<lambda>x. x \<noteq> CHR '' '') line)) <
        length (dropWhile (\<lambda>x. x \<noteq> CHR '' '') line)"
      by (cases "dropWhile (\<lambda>x. x \<noteq> CHR '' '') line") auto
    moreover have "length (dropWhile (\<lambda>x. x \<noteq> CHR '' '') line) \<le> length line"
      by (rule length_dropWhile_le)
    moreover have "length r \<le> length (drop 1 (dropWhile (\<lambda>x. x \<noteq> CHR '' '') line))"
      unfolding r lstrip_def by (rule length_dropWhile_le)
    ultimately show ?thesis by linarith
  next
    case False
    then have "r = []" using assms ne by (auto simp: parse_entry_def lstrip_def)
    with ne show ?thesis by simp
  qed
qed

function pop_all :: "control_line \<Rightarrow> error + string list" where
  "pop_all l =
     (if is_empty l then Inr []
      else case pop l False False of
        Inl e \<Rightarrow> Inl e
      | Inr (next_entry, l') \<Rightarrow>
          (case pop_all l' of Inl e \<Rightarrow> Inl e | Inr entries \<Rightarrow> Inr (next_entry # entries)))"
  by pat_completeness auto
termination
proof (relation "measure (\<lambda>l. length (line_remainder l))", goal_cases)
  case 1
  show ?case by simp
next
  case (2 l x2 x y)
  then obtain r where "parse_entry (line_remainder l) False False = Inr (x, r)"
      and "y = l\<lparr>line_remainder := r\<rparr>"
    by (auto simp: pop_def split: sum.splits)
  then show ?case using parse_entry_unquoted_shorter by auto
qed

section \<open>More Python strings and integers\<close>

text \<open>\<open>s.isdigit()\<close> on a byte string: not empty and made of the digits 0 to 9.\<close>

definition isdigit_chr :: "char \<Rightarrow> bool" where
  "isdigit_chr c = (48 \<le> (of_char c :: nat) \<and> (of_char c :: nat) \<le> 57)"

definition isdigit :: "string \<Rightarrow> bool" where
  "isdigit s = (s \<noteq> [] \<and> list_all isdigit_chr s)"

text \<open>\<open>int(s)\<close> for a string of digits.\<close>

definition nat_of_digits :: "string \<Rightarrow> nat" where
  "nat_of_digits s = foldl (\<lambda>n c. 10 * n + (of_char c - 48)) 0 s"

definition int_of_str :: "string \<Rightarrow> int" where
  "int_of_str s = int (nat_of_digits s)"

text \<open>\<open>str(n)\<close> and the format \<open>%i\<close> for an integer.\<close>

fun str_nat :: "nat \<Rightarrow> string" where
  "str_nat n = (if n < 10 then [char_of (48 + n)] else str_nat (n div 10) @ [char_of (48 + n mod 10)])"

definition str_int :: "int \<Rightarrow> string" where
  "str_int i = (if i < 0 then CHR ''-'' # str_nat (nat (- i)) else str_nat (nat i))"

text \<open>\<open>s.split(c)\<close>: every piece between occurrences of \<open>c\<close>.\<close>

fun split_chr :: "char \<Rightarrow> string \<Rightarrow> string list" where
  "split_chr c [] = [[]]"
| "split_chr c (x # xs) =
     (if x = c then [] # split_chr c xs
      else case split_chr c xs of [] \<Rightarrow> [[x]] | g # gs \<Rightarrow> (x # g) # gs)"

text \<open>\<open>s.rsplit(c, 1)\<close> when \<open>c\<close> occurs in \<open>s\<close>: the text before the last occurrence and
  the text after it.\<close>

definition rsplit1 :: "char \<Rightarrow> string \<Rightarrow> string \<times> string" where
  "rsplit1 c s = (case split1 c (rev s) of (b, a) \<Rightarrow> (rev a, rev b))"

text \<open>\<open>s.upper()\<close> on a byte string: the letters a to z become A to Z.\<close>

definition upper_chr :: "char \<Rightarrow> char" where
  "upper_chr c = (if 97 \<le> (of_char c :: nat) \<and> (of_char c :: nat) \<le> 122
                  then char_of ((of_char c :: nat) - 32) else c)"

definition upper :: "string \<Rightarrow> string" where
  "upper s = map upper_chr s"

text \<open>The slice \<open>s[1:-1]\<close>.\<close>

definition slice_inner :: "string \<Rightarrow> string" where
  "slice_inner s = butlast (drop 1 s)"

section \<open>Address helpers (stem.util.connection)\<close>

text \<open>
  Modelled from the spec: the module \<open>stem.util.connection\<close> is not among the sources, only
  its callers are. \<open>is_valid_port\<close> follows the data model (a port is an integer from 1 to
  65535) and the comment of \<open>_apply_portspec\<close> (\<open>allow_zero\<close> admits the port 0); it is
  called on an integer, on a string and on a list of strings.
\<close>

definition is_valid_port_int :: "int \<Rightarrow> bool \<Rightarrow> bool" where
  "is_valid_port_int entry allow_zero = ((allow_zero \<and> entry = 0) \<or> (entry > 0 \<and> entry < 65536))"

definition is_valid_port_str :: "string \<Rightarrow> bool \<Rightarrow> bool" where
  "is_valid_port_str entry allow_zero = (isdigit entry \<and> is_valid_port_int (int_of_str entry) allow_zero)"

definition is_valid_port_list :: "string list \<Rightarrow> bool \<Rightarrow> bool" where
  "is_valid_port_list entries allow_zero = list_all (\<lambda>entry. is_valid_port_str entry allow_zero) entries"

text \<open>
  Modelled from the spec: \<open>is_valid_ip_address\<close> of the missing module. An IPv4 address
  is in dotted-quad format: four decimal numbers from 0 to 255 separated by periods.
\<close>

definition is_valid_ip_address :: "string \<Rightarrow> bool" where
  "is_valid_ip_address address =
     (let entries = split_chr CHR ''.'' address
      in length entries = 4 \<and> list_all (\<lambda>entry. isdigit entry \<and> nat_of_digits entry \<le> 255) entries)"

text \<open>
  Modelled from the spec: \<open>is_valid_ipv6_address\<close> and \<open>expand_ipv6_address\<close> of the
  missing module. An IPv6 address is eight groups of at most four hexadecimal digits
  separated by colons, where one run of groups may be collapsed into \<open>::\<close>. Expanding an
  address restores the collapsed groups and pads every group with zeros to four digits.
\<close>

definition is_hex_chr :: "char \<Rightarrow> bool" where
  "is_hex_chr c =
     (let n = (of_char c :: nat)
      in (48 \<le> n \<and> n \<le> 57) \<or> (65 \<le> n \<and> n \<le> 70) \<or> (97 \<le> n \<and> n \<le> 102))"

definition collapsed_groups :: "string list \<Rightarrow> nat list" where
  "collapsed_groups groups = filter (\<lambda>i. groups ! i = []) [1..<length groups - 1]"

definition is_valid_ipv6_address :: "string \<Rightarrow> bool" where
  "is_valid_ipv6_address address =
     (let groups = split_chr CHR '':'' address
      in length groups \<le> 8
         \<and> (length groups = 8 \<or> collapsed_groups groups \<noteq> [])
         \<and> length (collapsed_groups groups) \<le> 1
         \<and> list_all (\<lambda>g. length g \<le> 4 \<and> list_all is_hex_chr g) groups)"

definition is_valid_ipv6_address_brackets :: "string \<Rightarrow> bool" where
  "is_valid_ipv6_address_brackets address =
     (if startswith address ''['' \<and> endswith address '']''
      then is_valid_ipv6_address (slice_inner address)
      else is_valid_ipv6_address address)"

definition expand_groups :: "string list \<Rightarrow> string list" where
  "expand_groups groups =
     (case collapsed_groups groups of
        [] \<Rightarrow> groups
      | i # _ \<Rightarrow> take (Suc i) groups @ replicate (8 - length groups) [] @ drop (Suc i) groups)"

definition pad4 :: "string \<Rightarrow> string" where
  "pad4 g = replicate (4 - length g) CHR ''0'' @ g"

definition expand_ipv6_address :: "string \<Rightarrow> error + string" where
  "expand_ipv6_address address =
     (if \<not> is_valid_ipv6_address address then Inl ValueError
      else Inr (join '':'' (map pad4 (expand_groups (split_chr CHR '':'' address)))))"

text \<open>
  Modelled from the spec: \<open>get_address_binary\<close> of the missing module, read as a number
  by its caller (\<open>int(get_address_binary(address), 2)\<close>): the 32 bits of an IPv4 address or
  the 128 bits of an IPv6 address; any other string is refused.
\<close>

definition hex_val :: "char \<Rightarrow> nat" where
  "hex_val c =
     (let n = (of_char c :: nat)
      in if n \<le> 57 then n - 48 else if n \<le> 70 then n - 55 else n - 87)"

definition nat_of_hex :: "string \<Rightarrow> nat" where
  "nat_of_hex s = foldl (\<lambda>n c. 16 * n + hex_val c) 0 s"

definition address_bin :: "string \<Rightarrow> error + int" where
  "address_bin address =
     (if is_valid_ip_address address
      then Inr (int (foldl (\<lambda>n entry. 256 * n + nat_of_digits entry) 0 (split_chr CHR ''.'' address)))
      else if is_valid_ipv6_address address
      then Inr (int (foldl (\<lambda>n g. 65536 * n + nat_of_hex g) 0
                 (expand_groups (split_chr CHR '':'' address))))
      else Inl ValueError)"

text \<open>
  Modelled from the spec: \<open>get_mask\<close>, \<open>get_mask_ipv6\<close> and \<open>get_masked_bits\<close> of the
  missing module. A mask of \<open>bits\<close> bits is the address whose \<open>bits\<close> highest bits are
  set (0 to 32 bits for IPv4, 0 to 128 for IPv6); \<open>get_masked_bits\<close> is the number of bits
  of an IPv4 mask and fails on a mask that no number of bits gives.
\<close>

definition mask_value :: "nat \<Rightarrow> nat \<Rightarrow> nat" where
  "mask_value width bits = 2 ^ width - 2 ^ (width - bits)"

definition get_mask :: "int \<Rightarrow> error + string" where
  "get_mask bits =
     (if bits > 32 \<or> bits < 0 then Inl ValueError
      else let v = mask_value 32 (nat bits)
           in Inr (join ''.'' (map (\<lambda>i. str_nat (v div 256 ^ (3 - i) mod 256)) [0..<4])))"

definition hex_chr :: "nat \<Rightarrow> char" where
  "hex_chr d = (if d < 10 then char_of (48 + d) else char_of (55 + d))"

definition hex4 :: "nat \<Rightarrow> string" where
  "hex4 n = [hex_chr (n div 4096 mod 16), hex_chr (n div 256 mod 16), hex_chr (n div 16 mod 16), hex_chr (n mod 16)]"

definition get_mask_ipv6 :: "int \<Rightarrow> error + string" where
  "get_mask_ipv6 bits =
     (if bits > 128 \<or> bits < 0 then Inl ValueError
      else let v = mask_value 128 (nat bits)
           in Inr (join '':'' (map (\<lambda>i. hex4 (v div 65536 ^ (7 - i) mod 65536)) [0..<8])))"

definition get_masked_bits :: "string \<Rightarrow> error + int" where
  "get_masked_bits m =
     (if \<not> is_valid_ip_address m then Inl ValueError
      else case find (\<lambda>bits. address_bin m = Inr (int (mask_value 32 bits))) [0..<33] of
             None \<Rightarrow> Inl ValueError
           | Some bits \<Rightarrow> Inr (int bits))"

section \<open>Exit policy rules (stem/exit_policy.py)\<close>

text \<open>
  The enumeration \<open>AddressType\<close>. A rule stores the index of its address type in the
  enumeration (\<open>_address_type_to_int\<close>) and reads it back with \<open>_int_to_address_type\<close>,
  which fails on an index outside the enumeration.
\<close>

datatype AddressType = WILDCARD | IPv4 | IPv6

fun address_type_to_int :: "AddressType \<Rightarrow> nat" where
  "address_type_to_int WILDCARD = 0"
| "address_type_to_int IPv4 = 1"
| "address_type_to_int IPv6 = 2"

definition int_to_address_type :: "nat option \<Rightarrow> error + AddressType" where
  "int_to_address_type address_type_int =
     (case address_type_int of
        None \<Rightarrow> Inl TypeError
      | Some i \<Rightarrow> if i < 3 then Inr ([WILDCARD, IPv4, IPv6] ! i) else Inl IndexError)"

text \<open>
  An \<open>ExitPolicyRule\<close>, or a \<open>MicroExitPolicyRule\<close> when \<open>is_micro\<close> holds. The attributes
  \<open>_mask_bin\<close>, \<open>_addr_bin\<close> and \<open>_str_representation\<close> cache values that the other
  attributes determine, and the rule is never changed after its construction; the model
  computes them at each use.
\<close>

record exit_policy_rule =
  is_micro :: bool
  is_accept :: bool
  address :: "string option"
  address_type :: "nat option"
  masked_bits :: "int option"
  mask_str :: "string option"
  min_port :: int
  max_port :: int

text \<open>\<open>ExitPolicyRule._apply_addrspec\<close>.\<close>

definition apply_addrspec :: "exit_policy_rule \<Rightarrow> string \<Rightarrow> error + exit_policy_rule" where
  "apply_addrspec self addrspec =
     (case (if CHR ''/'' \<in> set addrspec
            then (case split1 CHR ''/'' addrspec of (a, e) \<Rightarrow> (a, Some e))
            else (addrspec, None)) of
        (addr, addr_extra) \<Rightarrow>
          if addrspec = ''*'' then
            Inr (self\<lparr>address_type := Some (address_type_to_int WILDCARD),
                      address := None, masked_bits := None\<rparr>)
          else if is_valid_ip_address addr then
            (let self = self\<lparr>address := Some addr, address_type := Some (address_type_to_int IPv4)\<rparr>
             in case addr_extra of
                  None \<Rightarrow> Inr (self\<lparr>masked_bits := Some 32\<rparr>)
                | Some extra \<Rightarrow>
                    if is_valid_ip_address extra then
                      (case get_masked_bits extra of
                         Inr bits \<Rightarrow> Inr (self\<lparr>masked_bits := Some bits\<rparr>)
                       | Inl _ \<Rightarrow> Inr (self\<lparr>mask_str := Some extra, masked_bits := None\<rparr>))
                    else if isdigit extra then
                      (if int_of_str extra < 0 \<or> int_of_str extra > 32 then Inl ValueError
                       else Inr (self\<lparr>masked_bits := Some (int_of_str extra)\<rparr>))
                    else Inl ValueError)
          else if startswith addr ''['' \<and> endswith addr '']''
                  \<and> is_valid_ipv6_address (slice_inner addr) then
            (case expand_ipv6_address (upper (slice_inner addr)) of
               Inl e \<Rightarrow> Inl e
             | Inr expanded \<Rightarrow>
                 (let self = self\<lparr>address := Some expanded,
                                  address_type := Some (address_type_to_int IPv6)\<rparr>
                  in case addr_extra of
                       None \<Rightarrow> Inr (self\<lparr>masked_bits := Some 128\<rparr>)
                     | Some extra \<Rightarrow>
                         if isdigit extra then
                           (if int_of_str extra < 0 \<or> int_of_str extra > 128 then Inl ValueError
                            else Inr (self\<lparr>masked_bits := Some (int_of_str extra)\<rparr>))
                         else Inl ValueError))
          else Inl ValueError)"

text \<open>\<open>ExitPolicyRule._apply_portspec\<close>.\<close>

definition apply_portspec :: "exit_policy_rule \<Rightarrow> string \<Rightarrow> error + exit_policy_rule" where
  "apply_portspec self portspec =
     (if portspec = ''*'' then Inr (self\<lparr>min_port := 1, max_port := 65535\<rparr>)
      else if isdigit portspec then
        (if is_valid_port_str portspec True
         then Inr (self\<lparr>min_port := int_of_str portspec, max_port := int_of_str portspec\<rparr>)
         else Inl ValueError)
      else if CHR ''-'' \<in> set portspec then
        (case split1 CHR ''-'' portspec of
           (lo, hi) \<Rightarrow>
             if is_valid_port_list [lo, hi] True then
               (if int_of_str lo > int_of_str hi then Inl ValueError
                else Inr (self\<lparr>min_port := int_of_str lo, max_port := int_of_str hi\<rparr>))
             else Inl ValueError)
      else Inl ValueError)"

text \<open>\<open>ExitPolicyRule.__init__\<close>. The attributes start unset; the ports are unset until
  \<open>_apply_portspec\<close> assigns them, which the model shows as 0.\<close>

definition ExitPolicyRule :: "string \<Rightarrow> error + exit_policy_rule" where
  "ExitPolicyRule rule =
     (if \<not> startswith rule ''accept'' \<and> \<not> startswith rule ''reject'' then Inl ValueError
      else let exitpattern = drop 6 rule
           in if \<not> startswith exitpattern '' ''
                 \<or> int (length exitpattern) - 1 \<noteq> int (length (lstrip exitpattern))
              then Inl ValueError
              else let exitpattern = drop 1 exitpattern
                   in if CHR '':'' \<notin> set exitpattern then Inl ValueError
                      else case rsplit1 CHR '':'' exitpattern of
                        (addrspec, portspec) \<Rightarrow>
                          (case apply_addrspec
                                  \<lparr>is_micro = False, is_accept = startswith rule ''accept'',
                                   address = None, address_type = None, masked_bits = None,
                                   mask_str = None, min_port = 0, max_port = 0\<rparr> addrspec of
                             Inl e \<Rightarrow> Inl e
                           | Inr self \<Rightarrow> apply_portspec self portspec))"

text \<open>\<open>MicroExitPolicyRule.__init__\<close>.\<close>

definition MicroExitPolicyRule :: "bool \<Rightarrow> int \<Rightarrow> int \<Rightarrow> exit_policy_rule" where
  "MicroExitPolicyRule accept lo hi =
     \<lparr>is_micro = True, is_accept = accept, address = None, address_type = None,
      masked_bits = None, mask_str = None, min_port = lo, max_port = hi\<rparr>"

text \<open>\<open>is_address_wildcard\<close>, \<open>is_port_wildcard\<close>, \<open>get_address_type\<close> and \<open>get_mask\<close>,
  with the overrides of \<open>MicroExitPolicyRule\<close>.\<close>

definition is_address_wildcard :: "exit_policy_rule \<Rightarrow> bool" where
  "is_address_wildcard self =
     (if is_micro self then True
      else address_type self = Some (address_type_to_int WILDCARD))"

definition is_port_wildcard :: "exit_policy_rule \<Rightarrow> bool" where
  "is_port_wildcard self = (min_port self \<in> {0, 1} \<and> max_port self = 65535)"

definition get_address_type :: "exit_policy_rule \<Rightarrow> error + AddressType" where
  "get_address_type self =
     (if is_micro self then Inr WILDCARD else int_to_address_type (address_type self))"

definition rule_get_mask :: "exit_policy_rule \<Rightarrow> error + string option" where
  "rule_get_mask self =
     (if is_micro self then Inr None
      else if mask_str self = None \<or> mask_str self = Some [] then
        (case get_address_type self of
           Inl e \<Rightarrow> Inl e
         | Inr WILDCARD \<Rightarrow> Inr None
         | Inr IPv4 \<Rightarrow>
             (case masked_bits self of
                None \<Rightarrow> Inl ValueError
              | Some bits \<Rightarrow> (case get_mask bits of Inl e \<Rightarrow> Inl e | Inr m \<Rightarrow> Inr (Some m)))
         | Inr IPv6 \<Rightarrow>
             (case masked_bits self of
                None \<Rightarrow> Inl ValueError
              | Some bits \<Rightarrow> (case get_mask_ipv6 bits of Inl e \<Rightarrow> Inl e | Inr m \<Rightarrow> Inr (Some m))))
      else Inr (mask_str self))"

text \<open>\<open>_get_mask_bin\<close> and \<open>_get_address_bin\<close>; \<open>get_address_binary\<close> refuses \<open>None\<close>.\<close>

definition get_mask_bin :: "exit_policy_rule \<Rightarrow> error + int" where
  "get_mask_bin self =
     (case rule_get_mask self of
        Inl e \<Rightarrow> Inl e
      | Inr None \<Rightarrow> Inl ValueError
      | Inr (Some m) \<Rightarrow> address_bin m)"

definition get_address_bin :: "exit_policy_rule \<Rightarrow> int \<Rightarrow> error + int" where
  "get_address_bin self mask_bin =
     (case address self of
        None \<Rightarrow> Inl ValueError
      | Some a \<Rightarrow> (case address_bin a of Inl e \<Rightarrow> Inl e | Inr n \<Rightarrow> Inr (n AND mask_bin)))"

text \<open>
  \<open>ExitPolicyRule.is_match\<close>. The first part validates the arguments and returns early
  when the kinds of address differ; the second compares the masked addresses and the port.
\<close>

definition match_address :: "exit_policy_rule \<Rightarrow> string option \<Rightarrow> error + bool" where
  "match_address self addr =
     (if \<not> is_address_wildcard self then
        (case addr of
           None \<Rightarrow> Inr False
         | Some a \<Rightarrow>
             (case address_bin a of
                Inl e \<Rightarrow> Inl e
              | Inr comparison_addr_bin \<Rightarrow>
                  (case get_mask_bin self of
                     Inl e \<Rightarrow> Inl e
                   | Inr mask_bin \<Rightarrow>
                       (case get_address_bin self mask_bin of
                          Inl e \<Rightarrow> Inl e
                        | Inr addr_bin \<Rightarrow> Inr (addr_bin = (comparison_addr_bin AND mask_bin))))))
      else Inr True)"

definition match_port :: "exit_policy_rule \<Rightarrow> int option \<Rightarrow> bool" where
  "match_port self port =
     (if \<not> is_port_wildcard self then
        (case port of
           None \<Rightarrow> False
         | Some p \<Rightarrow> \<not> (p < min_port self \<or> p > max_port self))
      else True)"

definition match_rest :: "exit_policy_rule \<Rightarrow> string option \<Rightarrow> int option \<Rightarrow> error + bool" where
  "match_rest self addr port =
     (if (case port of None \<Rightarrow> False | Some p \<Rightarrow> \<not> is_valid_port_int p False) then Inl ValueError
      else case match_address self addr of
             Inl e \<Rightarrow> Inl e
           | Inr False \<Rightarrow> Inr False
           | Inr True \<Rightarrow> Inr (match_port self port))"

definition is_match :: "exit_policy_rule \<Rightarrow> string option \<Rightarrow> int option \<Rightarrow> error + bool" where
  "is_match self addr port =
     (case addr of
        None \<Rightarrow> match_rest self None port
      | Some a \<Rightarrow>
          (case get_address_type self of
             Inl e \<Rightarrow> Inl e
           | Inr atype \<Rightarrow>
               if is_valid_ip_address a then
                 (if atype = IPv6 then Inr False else match_rest self (Some a) port)
               else if is_valid_ipv6_address_brackets a then
                 (if atype = IPv4 then Inr False
                  else match_rest self
                         (Some (rev (dropWhile (\<lambda>c. c = CHR '']'')
                                  (rev (dropWhile (\<lambda>c. c = CHR ''['') a))))) port)
               else Inl ValueError))"

text \<open>\<open>ExitPolicyRule.__str__\<close>; the format \<open>%s\<close> prints an unset value as \<open>None\<close>, and
  concatenating it or formatting it with \<open>%i\<close> is a type error.\<close>

definition rule_str :: "exit_policy_rule \<Rightarrow> error + string" where
  "rule_str self =
     (let label = (if is_accept self then ''accept '' else ''reject '');
          ports = (if is_port_wildcard self then ''*''
                   else if min_port self = max_port self then str_int (min_port self)
                   else str_int (min_port self) @ ''-'' @ str_int (max_port self))
      in if is_address_wildcard self then Inr (label @ ''*:'' @ ports)
         else case get_address_type self of
           Inl e \<Rightarrow> Inl e
         | Inr atype \<Rightarrow>
             (case (if atype = IPv4
                    then (case address self of None \<Rightarrow> Inl TypeError | Some a \<Rightarrow> Inr (label @ a))
                    else Inr (label @ ''['' @ (case address self of None \<Rightarrow> ''None'' | Some a \<Rightarrow> a) @ '']'')) of
                Inl e \<Rightarrow> Inl e
              | Inr label \<Rightarrow>
                  if (atype = IPv4 \<and> masked_bits self = Some 32)
                     \<or> (atype = IPv6 \<and> masked_bits self = Some 128)
                  then Inr (label @ '':'' @ ports)
                  else (case masked_bits self of
                          Some bits \<Rightarrow> Inr (label @ ''/'' @ str_int bits @ '':'' @ ports)
                        | None \<Rightarrow>
                            (case rule_get_mask self of
                               Inl e \<Rightarrow> Inl e
                             | Inr m \<Rightarrow> Inr (label @ ''/'' @ (case m of None \<Rightarrow> ''None'' | Some s \<Rightarrow> s)
                                              @ '':'' @ ports)))))"

section \<open>Exit policies (stem/exit_policy.py)\<close>

text \<open>
  An \<open>ExitPolicy\<close>: the rules are parsed from the input at the first use, and the summary
  is computed once. The methods return their result with the policy as they leave it. The
  constructor's check of the argument types is what the type of \<open>input_rules\<close> says.
\<close>

record exit_policy =
  rules :: "exit_policy_rule list option"
  input_rules :: "(string + exit_policy_rule) list option"
  is_allowed_default :: bool
  summary_representation :: "string option"

definition ExitPolicy :: "(string + exit_policy_rule) list \<Rightarrow> exit_policy" where
  "ExitPolicy rs =
     \<lparr>rules = None, input_rules = Some rs, is_allowed_default = True,
      summary_representation = None\<rparr>"

definition set_default_allowed :: "'a exit_policy_scheme \<Rightarrow> bool \<Rightarrow> 'a exit_policy_scheme" where
  "set_default_allowed self allowed = self\<lparr>is_allowed_default := allowed\<rparr>"

text \<open>\<open>ExitPolicy._get_rules\<close>: a string is stripped and parsed, a rule is taken as it is.\<close>

fun load_rules :: "(string + exit_policy_rule) list \<Rightarrow> error + exit_policy_rule list" where
  "load_rules [] = Inr []"
| "load_rules (Inl rule # rest) =
     (case ExitPolicyRule (strip rule) of
        Inl e \<Rightarrow> Inl e
      | Inr r \<Rightarrow> (case load_rules rest of Inl e \<Rightarrow> Inl e | Inr rs \<Rightarrow> Inr (r # rs)))"
| "load_rules (Inr r # rest) =
     (case load_rules rest of Inl e \<Rightarrow> Inl e | Inr rs \<Rightarrow> Inr (r # rs))"

definition get_rules :: "'a exit_policy_scheme \<Rightarrow> error + (exit_policy_rule list \<times> 'a exit_policy_scheme)" where
  "get_rules self =
     (case rules self of
        Some rs \<Rightarrow> Inr (rs, self)
      | None \<Rightarrow>
          (case input_rules self of
             None \<Rightarrow> Inl TypeError
           | Some inp \<Rightarrow>
               (case load_rules inp of
                  Inl e \<Rightarrow> Inl e
                | Inr rs \<Rightarrow> Inr (rs, self\<lparr>rules := Some rs, input_rules := None\<rparr>))))"

text \<open>\<open>ExitPolicy.can_exit_to\<close>: the loop over the rules, then the method.\<close>

fun first_match :: "exit_policy_rule list \<Rightarrow> string option \<Rightarrow> int option \<Rightarrow> error + bool option" where
  "first_match [] addr port = Inr None"
| "first_match (rule # rest) addr port =
     (case is_match rule addr port of
        Inl e \<Rightarrow> Inl e
      | Inr True \<Rightarrow> Inr (Some (is_accept rule))
      | Inr False \<Rightarrow> first_match rest addr port)"

definition can_exit_to :: "'a exit_policy_scheme \<Rightarrow> string option \<Rightarrow> int option \<Rightarrow> error + (bool \<times> 'a exit_policy_scheme)" where
  "can_exit_to self addr port =
     (case get_rules self of
        Inl e \<Rightarrow> Inl e
      | Inr (rs, self) \<Rightarrow>
          (case first_match rs addr port of
             Inl e \<Rightarrow> Inl e
           | Inr (Some accept) \<Rightarrow> Inr (accept, self)
           | Inr None \<Rightarrow> Inr (is_allowed_default self, self)))"

text \<open>
  \<open>ExitPolicy.summary\<close>. The first loop decides between a white-list and a blacklist, the
  second collects the ports to display, the third turns the sorted ports, with the closing
  \<open>None\<close>, into ranges.
\<close>

fun summary_is_whitelist :: "exit_policy_rule list \<Rightarrow> bool \<Rightarrow> bool" where
  "summary_is_whitelist [] is_whitelist = is_whitelist"
| "summary_is_whitelist (rule # rest) is_whitelist =
     (if is_address_wildcard rule \<and> is_port_wildcard rule then \<not> is_accept rule
      else summary_is_whitelist rest is_whitelist)"

definition summary_add_port :: "exit_policy_rule \<Rightarrow> bool \<Rightarrow> int list \<times> int set \<Rightarrow> int \<Rightarrow> int list \<times> int set" where
  "summary_add_port rule is_whitelist acc port =
     (case acc of (display_ports, skip_ports) \<Rightarrow>
        if port \<in> skip_ports then (display_ports, skip_ports)
        else (if is_accept rule = is_whitelist then display_ports @ [port] else display_ports,
              insert port skip_ports))"

fun summary_ports :: "exit_policy_rule list \<Rightarrow> bool \<Rightarrow> int list \<times> int set \<Rightarrow> int list \<times> int set" where
  "summary_ports [] is_whitelist acc = acc"
| "summary_ports (rule # rest) is_whitelist acc =
     (if \<not> is_address_wildcard rule then summary_ports rest is_whitelist acc
      else if is_port_wildcard rule then acc
      else summary_ports rest is_whitelist
             (foldl (summary_add_port rule is_whitelist) acc [min_port rule..max_port rule]))"

fun summary_ranges :: "int option list \<Rightarrow> string list \<Rightarrow> int option list \<Rightarrow> string list" where
  "summary_ranges [] display_ranges temp_range = display_ranges"
| "summary_ranges (port # rest) display_ranges temp_range =
     (if temp_range = [] \<or> (case (last temp_range, port) of
                               (Some l, Some p) \<Rightarrow> l + 1 = p | _ \<Rightarrow> False)
      then summary_ranges rest display_ranges (temp_range @ [port])
      else summary_ranges rest
             (display_ranges @
                [if length temp_range > 1
                 then (case (hd temp_range, last temp_range) of
                         (Some a, Some b) \<Rightarrow> str_int a @ ''-'' @ str_int b | _ \<Rightarrow> [])
                 else (case hd temp_range of Some a \<Rightarrow> str_int a | None \<Rightarrow> ''None'')])
             [port])"

definition summary :: "'a exit_policy_scheme \<Rightarrow> error + (string \<times> 'a exit_policy_scheme)" where
  "summary self =
     (case summary_representation self of
        Some s \<Rightarrow> Inr (s, self)
      | None \<Rightarrow>
          (case get_rules self of
             Inl e \<Rightarrow> Inl e
           | Inr (rs, self) \<Rightarrow>
               (let is_whitelist = summary_is_whitelist rs (\<not> is_allowed_default self);
                    display_ports = fst (summary_ports rs is_whitelist ([], {}));
                    (is_whitelist, display_ranges) =
                      (if display_ports \<noteq> []
                       then (is_whitelist,
                             summary_ranges (map Some (sort display_ports) @ [None]) [] [])
                       else (\<not> is_whitelist, [''1-65535'']));
                    label_prefix = (if is_whitelist then ''accept '' else ''reject '');
                    s = strip (label_prefix @ join '', '' display_ranges)
                in Inr (s, self\<lparr>summary_representation := Some s\<rparr>))))"

text \<open>\<open>ExitPolicy.__str__\<close>.\<close>

fun rules_str :: "exit_policy_rule list \<Rightarrow> error + string list" where
  "rules_str [] = Inr []"
| "rules_str (rule # rest) =
     (case rule_str rule of
        Inl e \<Rightarrow> Inl e
      | Inr s \<Rightarrow> (case rules_str rest of Inl e \<Rightarrow> Inl e | Inr ss \<Rightarrow> Inr (s # ss)))"

definition policy_str :: "'a exit_policy_scheme \<Rightarrow> error + (string \<times> 'a exit_policy_scheme)" where
  "policy_str self =
     (case get_rules self of
        Inl e \<Rightarrow> Inl e
      | Inr (rs, self) \<Rightarrow>
          (case rules_str rs of Inl e \<Rightarrow> Inl e | Inr ss \<Rightarrow> Inr (join '', '' ss, self)))"

text \<open>
  \<open>MicrodescriptorExitPolicy\<close>: an \<open>ExitPolicy\<close> with the attributes \<open>is_accept\<close> and
  \<open>_policy\<close>. Its constructor parses the port list into \<open>MicroExitPolicyRule\<close> entries and
  sets the default to the opposite of \<open>is_accept\<close>; its \<open>__str__\<close> is the policy string.
\<close>

record microdescriptor_exit_policy = exit_policy +
  policy_is_accept :: bool
  policy :: string

fun micro_rules :: "bool \<Rightarrow> string list \<Rightarrow> error + exit_policy_rule list" where
  "micro_rules accept [] = Inr []"
| "micro_rules accept (port_entry # rest) =
     (case (if CHR ''-'' \<in> set port_entry then split1 CHR ''-'' port_entry
            else (port_entry, port_entry)) of
        (lo, hi) \<Rightarrow>
          if \<not> is_valid_port_str lo False \<or> \<not> is_valid_port_str hi False then Inl ValueError
          else (case micro_rules accept rest of
                  Inl e \<Rightarrow> Inl e
                | Inr rs \<Rightarrow> Inr (MicroExitPolicyRule accept (int_of_str lo) (int_of_str hi) # rs)))"

definition MicrodescriptorExitPolicy :: "string \<Rightarrow> error + microdescriptor_exit_policy" where
  "MicrodescriptorExitPolicy p =
     (if \<not> startswith p ''accept'' \<and> \<not> startswith p ''reject'' then Inl ValueError
      else let accept = startswith p ''accept'';
               ports = drop 6 p
           in if \<not> startswith ports '' '' \<or> int (length ports) - 1 \<noteq> int (length (lstrip ports))
              then Inl ValueError
              else case micro_rules accept (split_chr CHR '','' (drop 1 ports)) of
                     Inl e \<Rightarrow> Inl e
                   | Inr rs \<Rightarrow>
                       Inr (set_default_allowed
                              (exit_policy.extend (ExitPolicy (map Inr rs))
                                 (microdescriptor_exit_policy.fields accept p))
                              (\<not> accept)))"

definition micro_policy_str :: "microdescriptor_exit_policy \<Rightarrow> string" where
  "micro_policy_str self = policy self"

section \<open>Probes and the documented examples\<close>

text \<open>
  A valid probe: the address is omitted or is an IPv4 address or an IPv6 address with or
  without brackets, and the port is omitted or is a port number; these are the arguments
  on which \<open>is_match\<close> raises no \<open>ValueError\<close>.
\<close>

definition valid_address :: "string option \<Rightarrow> bool" where
  "valid_address addr =
     (case addr of None \<Rightarrow> True | Some a \<Rightarrow> is_valid_ip_address a \<or> is_valid_ipv6_address_brackets a)"

definition valid_port :: "int option \<Rightarrow> bool" where
  "valid_port port = (case port of None \<Rightarrow> True | Some p \<Rightarrow> is_valid_port_int p False)"

text \<open>
  What the constructors establish and the methods rely on: an \<open>ExitPolicyRule\<close> that is
  not a wildcard holds a valid address of its type and either a number of mask bits in
  range or, for IPv4, a valid mask. A policy is well formed when the rule objects it was
  given, or has loaded, are.
\<close>

definition rule_wf :: "exit_policy_rule \<Rightarrow> bool" where
  "rule_wf r =
     (is_micro r \<or> address_type r = Some 0 \<or>
      (address_type r = Some 1
         \<and> (case address r of None \<Rightarrow> False | Some a \<Rightarrow> is_valid_ip_address a)
         \<and> (case mask_str r of
               Some m \<Rightarrow> is_valid_ip_address m
             | None \<Rightarrow> (case masked_bits r of None \<Rightarrow> False | Some b \<Rightarrow> 0 \<le> b \<and> b \<le> 32))) \<or>
      (address_type r = Some 2
         \<and> (case address r of None \<Rightarrow> False | Some a \<Rightarrow> is_valid_ipv6_address a)
         \<and> mask_str r = None
         \<and> (case masked_bits r of None \<Rightarrow> False | Some b \<Rightarrow> 0 \<le> b \<and> b \<le> 128)))"

definition policy_wf :: "'a exit_policy_scheme \<Rightarrow> bool" where
  "policy_wf p =
     (case rules p of
        Some rs \<Rightarrow> list_all rule_wf rs
      | None \<Rightarrow>
          (case input_rules p of
             None \<Rightarrow> False
           | Some inp \<Rightarrow> list_all (\<lambda>x. case x of Inl _ \<Rightarrow> True | Inr r \<Rightarrow> rule_wf r) inp))"

text \<open>
  The form of a rule that \<open>ExitPolicyRule.__init__\<close> returns: an IPv6 address is stored
  expanded and in upper case, a mask is stored as a number of bits unless no number of
  bits gives it, and the ports are in range.
\<close>

definition is_upper_hex_chr :: "char \<Rightarrow> bool" where
  "is_upper_hex_chr c =
     (let n = (of_char c :: nat) in (48 \<le> n \<and> n \<le> 57) \<or> (65 \<le> n \<and> n \<le> 70))"

definition canonical_ipv6 :: "string \<Rightarrow> bool" where
  "canonical_ipv6 e =
     (let groups = split_chr CHR '':'' e
      in length groups = 8 \<and> list_all (\<lambda>g. length g = 4 \<and> list_all is_upper_hex_chr g) groups)"

definition built :: "exit_policy_rule \<Rightarrow> bool" where
  "built r =
     (\<not> is_micro r \<and> 0 \<le> min_port r \<and> min_port r \<le> max_port r \<and> max_port r \<le> 65535 \<and>
      ((address_type r = Some 0 \<and> address r = None \<and> masked_bits r = None \<and> mask_str r = None) \<or>
       (address_type r = Some 1
          \<and> (case address r of None \<Rightarrow> False | Some a \<Rightarrow> is_valid_ip_address a)
          \<and> (case mask_str r of
                None \<Rightarrow> (case masked_bits r of None \<Rightarrow> False | Some b \<Rightarrow> 0 \<le> b \<and> b \<le> 32)
              | Some m \<Rightarrow> masked_bits r = None \<and> is_valid_ip_address m
                           \<and> (case get_masked_bits m of Inl _ \<Rightarrow> True | Inr _ \<Rightarrow> False))) \<or>
       (address_type r = Some 2
          \<and> (case address r of None \<Rightarrow> False | Some e \<Rightarrow> canonical_ipv6 e)
          \<and> mask_str r = None
          \<and> (case masked_bits r of None \<Rightarrow> False | Some b \<Rightarrow> 0 \<le> b \<and> b \<le> 128))))"

text \<open>
  The parts of the string form of a rule: the label, and the ports as \<open>__str__\<close> prints
  them; and the rule as \<open>__init__\<close> has it before the address and the ports are parsed.
\<close>

definition portspec_of :: "exit_policy_rule \<Rightarrow> string" where
  "portspec_of r =
     (if is_port_wildcard r then ''*''
      else if min_port r = max_port r then str_int (min_port r)
      else str_int (min_port r) @ ''-'' @ str_int (max_port r))"

definition label_of :: "exit_policy_rule \<Rightarrow> string" where
  "label_of r = (if is_accept r then ''accept '' else ''reject '')"

definition new_rule :: "bool \<Rightarrow> exit_policy_rule" where
  "new_rule accept =
     \<lparr>is_micro = False, is_accept = accept, address = None, address_type = None,
      masked_bits = None, mask_str = None, min_port = 0, max_port = 0\<rparr>"

text \<open>
  The policy \<open>ExitPolicy("accept *:80", "accept *:443", "reject *:*")\<close> of the module's
  documentation, its parsed rules, and the policy once the rules are loaded.
\<close>

definition example_policy :: exit_policy where
  "example_policy = ExitPolicy [Inl ''accept *:80'', Inl ''accept *:443'', Inl ''reject *:*'']"

definition example_rules :: "exit_policy_rule list" where
  "example_rules =
     [\<lparr>is_micro = False, is_accept = True, address = None, address_type = Some 0,
       masked_bits = None, mask_str = None, min_port = 80, max_port = 80\<rparr>,
      \<lparr>is_micro = False, is_accept = True, address = None, address_type = Some 0,
       masked_bits = None, mask_str = None, min_port = 443, max_port = 443\<rparr>,
      \<lparr>is_micro = False, is_accept = False, address = None, address_type = Some 0,
       masked_bits = None, mask_str = None, min_port = 1, max_port = 65535\<rparr>]"

definition example_policy_loaded :: "string option \<Rightarrow> exit_policy" where
  "example_policy_loaded s =
     \<lparr>rules = Some example_rules, input_rules = None, is_allowed_default = True,
      summary_representation = s\<rparr>"

text \<open>
  The policy \<open>MicrodescriptorExitPolicy("accept 80,443")\<close> and its rules, before and after
  the rules are loaded.
\<close>

definition micro_example_rules :: "exit_policy_rule list" where
  "micro_example_rules = [MicroExitPolicyRule True 80 80, MicroExitPolicyRule True 443 443]"

definition micro_example :: "exit_policy_rule list option \<Rightarrow> (string + exit_policy_rule) list option \<Rightarrow> microdescriptor_exit_policy" where
  "micro_example rs inp =
     \<lparr>rules = rs, input_rules = inp, is_allowed_default = False, summary_representation = None,
      policy_is_accept = True, policy = ''accept 80,443''\<rparr>"

section \<open>Simplification setup\<close>

declare split_ws.simps [simp del] skip_escaped.simps [simp del] replace.simps [simp del]
  pop_all.simps [simp del]

section \<open>Reply messages are never empty\<close>

text \<open>
  C9: constructing a \<open>ControlMessage\<close> from an empty sequence of parsed lines fails with
  \<open>ValueError\<close>, and every successfully constructed message has at least one line.
\<close>

theorem ControlMessage_nonempty:
  "ControlMessage [] raw = Inl ValueError \<and>
   (\<forall>pc m. ControlMessage pc raw = Inr m \<longrightarrow> 1 \<le> len m \<and> parsed_content m = pc)"
  by (auto simp: ControlMessage_def len_def Suc_le_eq split: if_splits)

theorem ControlMessage_nonempty_witness:
  "ControlMessage [] ''x'' = Inl ValueError \<and>
   ControlMessage [(''250'', '' '', ''OK'')] ''250 OK'' =
     Inr \<lparr>parsed_content = [(''250'', '' '', ''OK'')], raw_content = ''250 OK''\<rparr> \<and>
   1 \<le> len \<lparr>parsed_content = [(''250'', '' '', ''OK'')], raw_content = ''250 OK''\<rparr>"
  using ControlMessage_nonempty [of "''250 OK''"]
  by (simp add: ControlMessage_def len_def)


section \<open>Single-line responses\<close>

text \<open>
  C8: a message that \<open>_parse_message\<close> accepts as a single-line response has exactly one
  line; \<open>is_ok(strict = False)\<close> holds iff the status code of that line is "250", and
  \<open>is_ok(strict = True)\<close> holds iff the line is the code "250", the divider " " and the
  content "OK".
\<close>

theorem is_ok_single_line:
  "parse_message m = Inr r \<Longrightarrow>
   \<exists>c d t. parsed_content m = [(c, d, t)] \<and> code r = c \<and> message r = t \<and>
     is_ok r False = Inr (c = ''250'') \<and>
     is_ok r True = Inr (c = ''250'' \<and> d = '' '' \<and> t = ''OK'')"
proof -
  assume a: "parse_message m = Inr r"
  obtain l where pc: "parsed_content m = [l]"
    using a by (cases "parsed_content m"; cases "tl (parsed_content m)")
      (auto simp: parse_message_def content_def Let_def split: if_splits)
  obtain c d t where l: "l = (c, d, t)" by (cases l)
  from a pc l have r: "r = \<lparr>parsed_content = [(c, d, t)], raw_content = raw_content m, code = c, message = t\<rparr>"
    by (simp add: parse_message_def content_def)
  show ?thesis using pc l r by (simp add: is_ok_def content_def)
qed

theorem is_ok_single_line_witness:
  "parse_message \<lparr>parsed_content = [(''250'', '' '', ''OK'')], raw_content = ''250 OK''\<rparr> =
     Inr \<lparr>parsed_content = [(''250'', '' '', ''OK'')], raw_content = ''250 OK'',
          code = ''250'', message = ''OK''\<rparr> \<and>
   is_ok \<lparr>parsed_content = [(''250'', '' '', ''OK'')], raw_content = ''250 OK'',
          code = ''250'', message = ''OK''\<rparr> False = Inr True \<and>
   is_ok \<lparr>parsed_content = [(''250'', '' '', ''OK'')], raw_content = ''250 OK'',
          code = ''250'', message = ''OK''\<rparr> True = Inr True"
  using is_ok_single_line
    [of "\<lparr>parsed_content = [(''250'', '' '', ''OK'')], raw_content = ''250 OK''\<rparr>"
        "\<lparr>parsed_content = [(''250'', '' '', ''OK'')], raw_content = ''250 OK'',
          code = ''250'', message = ''OK''\<rparr>"]
  by (simp add: parse_message_def content_def)

section \<open>Errors of the line cursor\<close>

lemma takeWhile_neq_less: "c \<in> set xs \<Longrightarrow> length (takeWhile (\<lambda>x. x \<noteq> c) xs) < length xs"
  by (induction xs) auto

lemma find_chr_none: "0 \<le> p \<Longrightarrow> find_chr s c p = - 1 \<longleftrightarrow> c \<notin> set (drop (nat p) s)"
  by (auto simp: find_chr_def Let_def)

lemma nth_takeWhile_neq: "c \<in> set xs \<Longrightarrow> xs ! length (takeWhile (\<lambda>x. x \<noteq> c) xs) = c"
  by (induction xs) auto

lemma find_chr_some:
  assumes "0 \<le> p" "c \<in> set (drop (nat p) s)"
  shows "p \<le> find_chr s c p" "find_chr s c p < int (length s)" "s ! nat (find_chr s c p) = c"
    "\<And>j. nat p \<le> j \<Longrightarrow> j < nat (find_chr s c p) \<Longrightarrow> s ! j \<noteq> c"
proof -
  let ?rest = "drop (nat p) s"
  let ?k = "length (takeWhile (\<lambda>x. x \<noteq> c) ?rest)"
  have f: "find_chr s c p = p + int ?k" using assms by (simp add: find_chr_def Let_def)
  have k: "?k < length ?rest" using assms(2) by (rule takeWhile_neq_less)
  show "p \<le> find_chr s c p" using f by simp
  show "find_chr s c p < int (length s)" using f k assms(1) by simp
  have "?rest ! ?k = c" using assms(2) by (rule nth_takeWhile_neq)
  moreover have "nat (find_chr s c p) = nat p + ?k" using f assms(1) by (simp add: nat_add_distrib)
  ultimately show "s ! nat (find_chr s c p) = c" using k by simp
  fix j assume j: "nat p \<le> j" "j < nat (find_chr s c p)"
  then have "j - nat p < ?k" using f assms(1) by linarith
  then have "?rest ! (j - nat p) \<noteq> c"
    by (metis (mono_tags, lifting) nth_mem set_takeWhileD takeWhile_nth)
  then show "s ! j \<noteq> c" using j k by simp
qed


lemma in_set_drop_conv_nth:
  "x \<in> set (drop n xs) \<longleftrightarrow> (\<exists>i. n \<le> i \<and> i < length xs \<and> xs ! i = x)"
proof
  assume "x \<in> set (drop n xs)"
  then obtain j where "j < length (drop n xs)" "drop n xs ! j = x"
    by (auto simp: in_set_conv_nth)
  then have "n \<le> n + j \<and> n + j < length xs \<and> xs ! (n + j) = x" by auto
  then show "\<exists>i. n \<le> i \<and> i < length xs \<and> xs ! i = x" by blast
next
  assume "\<exists>i. n \<le> i \<and> i < length xs \<and> xs ! i = x"
  then obtain i where i: "n \<le> i" "i < length xs" "xs ! i = x" by blast
  then have "i - n < length (drop n xs)" "drop n xs ! (i - n) = x" by auto
  then show "x \<in> set (drop n xs)" by (metis nth_mem)
qed

lemma find_chr_ge: "0 \<le> p \<Longrightarrow> find_chr s c p = - 1 \<or> p \<le> find_chr s c p"
  by (simp add: find_chr_def Let_def)

lemma skip_escaped_neg: "q < 1 \<Longrightarrow> skip_escaped s q = q"
  by (simp add: skip_escaped.simps)

lemma skip_escaped_ge: "- 1 \<le> q \<Longrightarrow> skip_escaped s q = - 1 \<or> q \<le> skip_escaped s q"
proof (induction s q rule: skip_escaped.induct)
  case (1 line q)
  show ?case
  proof (cases "q \<ge> 1 \<and> q \<le> int (length line) \<and> line ! nat (q - 1) = CHR 0x5C")
    case True
    let ?f = "find_chr line CHR 0x22 (q + 1)"
    have eq: "skip_escaped line q = skip_escaped line ?f"
      using True by (subst skip_escaped.simps) simp
    have f: "?f = - 1 \<or> q + 1 \<le> ?f" using True by (intro find_chr_ge) simp
    then have "- 1 \<le> ?f" using True by auto
    with 1 True have "skip_escaped line ?f = - 1 \<or> ?f \<le> skip_escaped line ?f" by blast
    with f eq show ?thesis by (auto simp: skip_escaped_neg)
  next
    case False
    then show ?thesis by (subst skip_escaped.simps) auto
  qed
qed

lemma skip_escaped_found:
  assumes "0 \<le> p" "q = find_chr s CHR 0x22 p"
  shows "skip_escaped s q \<noteq> - 1 \<longleftrightarrow>
    (\<exists>i. nat p \<le> i \<and> i < length s \<and> s ! i = CHR 0x22 \<and> \<not> (1 \<le> i \<and> s ! (i - 1) = CHR 0x5C))"
  using assms
proof (induction s q arbitrary: p rule: skip_escaped.induct)
  case (1 line q)
  let ?good = "\<lambda>i. i < length line \<and> line ! i = CHR 0x22 \<and> \<not> (1 \<le> i \<and> line ! (i - 1) = CHR 0x5C)"
  show ?case
  proof (cases "CHR 0x22 \<in> set (drop (nat p) line)")
    case False
    then have q: "q = - 1" using 1(2,3) by (simp add: find_chr_none)
    have "\<not> (\<exists>i. nat p \<le> i \<and> ?good i)"
      using False by (auto simp: in_set_drop_conv_nth)
    then show ?thesis using q by (simp add: skip_escaped_neg)
  next
    case True
    note fs = find_chr_some [OF 1(2) True, folded 1(3)]
    have q0: "0 \<le> q" using fs(1) 1(2) by simp
    show ?thesis
    proof (cases "q \<ge> 1 \<and> line ! nat (q - 1) = CHR 0x5C")
      case esc: True
      let ?f = "find_chr line CHR 0x22 (q + 1)"
      have cond: "q \<ge> 1 \<and> q \<le> int (length line) \<and> line ! nat (q - 1) = CHR 0x5C"
        using esc fs(2) by simp
      have eq: "skip_escaped line q = skip_escaped line ?f"
        using cond by (subst skip_escaped.simps) simp
      have ih: "skip_escaped line ?f \<noteq> - 1 \<longleftrightarrow> (\<exists>i. nat (q + 1) \<le> i \<and> ?good i)"
        using 1(1) [OF cond, of "q + 1"] q0 by simp
      have n1: "nat (q - 1) = nat q - 1" "1 \<le> nat q" using esc by arith+
      have notgood: "\<not> ?good (nat q)"
        using esc n1 by simp
      have "(\<exists>i. nat p \<le> i \<and> ?good i) \<longleftrightarrow> (\<exists>i. nat (q + 1) \<le> i \<and> ?good i)"
      proof
        assume "\<exists>i. nat p \<le> i \<and> ?good i"
        then obtain i where i: "nat p \<le> i" "?good i" by blast
        have "\<not> i < nat q" using fs(4) [of i] i by auto
        moreover have "i \<noteq> nat q" using notgood i by auto
        ultimately have "nat (q + 1) \<le> i" using q0 by linarith
        with i show "\<exists>i. nat (q + 1) \<le> i \<and> ?good i" by blast
      next
        assume "\<exists>i. nat (q + 1) \<le> i \<and> ?good i"
        then obtain i where i: "nat (q + 1) \<le> i" "?good i" by blast
        have "nat p \<le> i" using i(1) fs(1) by linarith
        with i show "\<exists>i. nat p \<le> i \<and> ?good i" by blast
      qed
      with eq ih show ?thesis by simp
    next
      case noesc: False
      have eq: "skip_escaped line q = q"
        using noesc by (subst skip_escaped.simps) auto
      have n1: "1 \<le> nat q \<Longrightarrow> nat (q - 1) = nat q - 1 \<and> 1 \<le> q" by arith
      have "?good (nat q)"
        using noesc fs(2,3) q0 n1 by auto
      moreover have "nat p \<le> nat q" using fs(1) by simp
      ultimately have "\<exists>i. nat p \<le> i \<and> ?good i" by blast
      with eq q0 show ?thesis by simp
    qed
  qed
qed

lemma next_quote_found:
  assumes "- 1 \<le> q"
  shows "next_quote s escaped q \<noteq> - 1 \<longleftrightarrow>
    (\<exists>i. nat (q + 1) \<le> i \<and> i < length s \<and> s ! i = CHR 0x22 \<and>
         (escaped \<longrightarrow> \<not> (1 \<le> i \<and> s ! (i - 1) = CHR 0x5C)))"
proof (cases escaped)
  case True
  then show ?thesis
    using skip_escaped_found [of "q + 1" _ s, OF _ refl] assms
    by (simp add: next_quote_def)
next
  case False
  then show ?thesis using assms
    by (auto simp: next_quote_def find_chr_none in_set_drop_conv_nth)
qed

lemma find_chr_zero: "find_chr s c 0 = 0 \<longleftrightarrow> s \<noteq> [] \<and> hd s = c"
  by (cases s) (auto simp: find_chr_def Let_def)

lemma next_quote_first: "next_quote s escaped (- 1) = 0 \<longleftrightarrow> s \<noteq> [] \<and> hd s = CHR 0x22"
proof (cases escaped)
  case False
  then show ?thesis by (simp add: next_quote_def find_chr_zero)
next
  case True
  let ?f = "find_chr s CHR 0x22 0"
  have f: "?f = - 1 \<or> 0 \<le> ?f" by (intro find_chr_ge) simp
  have "skip_escaped s ?f = 0 \<longleftrightarrow> ?f = 0"
  proof (cases "?f < 1")
    case True
    then show ?thesis by (simp add: skip_escaped_neg)
  next
    case False
    then have "skip_escaped s ?f = - 1 \<or> ?f \<le> skip_escaped s ?f"
      by (intro skip_escaped_ge) simp
    with False show ?thesis by auto
  qed
  with True show ?thesis by (simp add: next_quote_def find_chr_zero)
qed

lemma get_quote_indices_quoted:
  "(case get_quote_indices s escaped of (start_quote, end_quote) \<Rightarrow> start_quote = 0 \<and> end_quote \<noteq> - 1)
   \<longleftrightarrow> begins_with_quoted_value s escaped"
proof (cases "next_quote s escaped (- 1) = 0")
  case False
  then show ?thesis
    using next_quote_first [of s escaped]
    by (auto simp: get_quote_indices_def Let_def begins_with_quoted_value_def)
next
  case True
  then have hd: "s \<noteq> [] \<and> hd s = CHR 0x22" by (simp add: next_quote_first)
  have "next_quote s escaped 0 \<noteq> - 1 \<longleftrightarrow>
    (\<exists>i. 1 \<le> i \<and> i < length s \<and> s ! i = CHR 0x22 \<and> (escaped \<longrightarrow> s ! (i - 1) \<noteq> CHR 0x5C))"
    using next_quote_found [of 0 s escaped] by auto
  with True hd show ?thesis
    by (auto simp: get_quote_indices_def Let_def begins_with_quoted_value_def list_ex_iff)
qed

text \<open>
  C6: on a non-empty remainder that does not begin with a properly quoted value,
  \<open>pop(quoted = True)\<close> raises \<open>ValueError\<close>; on an empty remainder \<open>pop\<close> and
  \<open>pop_mapping\<close> raise \<open>IndexError\<close>, whatever their arguments.
\<close>

theorem pop_errors:
  "(line_remainder l \<noteq> [] \<and> \<not> begins_with_quoted_value (line_remainder l) escaped
      \<longrightarrow> pop l True escaped = Inl ValueError) \<and>
   (line_remainder l = []
      \<longrightarrow> pop l quoted escaped = Inl IndexError \<and> pop_mapping l quoted escaped = Inl IndexError)"
proof (intro conjI impI)
  assume a: "line_remainder l \<noteq> [] \<and> \<not> begins_with_quoted_value (line_remainder l) escaped"
  obtain sq eq where g: "get_quote_indices (line_remainder l) escaped = (sq, eq)"
    by (cases "get_quote_indices (line_remainder l) escaped")
  with a get_quote_indices_quoted [of "line_remainder l" escaped]
  have "sq \<noteq> 0 \<or> eq = - 1" by auto
  with a g show "pop l True escaped = Inl ValueError"
    by (auto simp: pop_def parse_entry_def)
next
  assume "line_remainder l = []"
  then show "pop l quoted escaped = Inl IndexError"
    by (simp add: pop_def parse_entry_def)
next
  assume "line_remainder l = []"
  then show "pop_mapping l quoted escaped = Inl IndexError"
    by (simp add: pop_mapping_def is_empty_def)
qed


theorem pop_errors_witness:
  "line_remainder (ControlLine (CHR 0x22 # ''mad here'')) \<noteq> [] \<and>
   \<not> begins_with_quoted_value (line_remainder (ControlLine (CHR 0x22 # ''mad here''))) True \<and>
   pop (ControlLine (CHR 0x22 # ''mad here'')) True True = Inl ValueError \<and>
   line_remainder (ControlLine []) = [] \<and>
   pop (ControlLine []) True False = Inl IndexError \<and>
   pop_mapping (ControlLine []) True False = Inl IndexError"
  using pop_errors [of "ControlLine (CHR 0x22 # ''mad here'')" True]
    pop_errors [of "ControlLine []" False True]
  by (simp add: ControlLine_def begins_with_quoted_value_def)

section \<open>Popping every entry of a line\<close>

lemma split1_append:
  "c \<in> set s \<Longrightarrow> s = takeWhile (\<lambda>x. x \<noteq> c) s @ c # drop 1 (dropWhile (\<lambda>x. x \<noteq> c) s)"
  by (induction s) auto

lemma takeWhile_append_stop:
  "\<not> P c \<Longrightarrow> takeWhile P (t @ c # y) = takeWhile P t"
  by (induction t) auto

lemma dropWhile_append_stop:
  "\<not> P c \<Longrightarrow> dropWhile P (t @ c # y) = dropWhile P t @ c # y"
  by (induction t) auto

lemma split_ws_Nil: "split_ws [] = []"
  by (simp add: split_ws.simps)

lemma split_ws_dropWhile: "split_ws (dropWhile isspace s) = split_ws s"
  by (subst (1 2) split_ws.simps) (simp add: Let_def dropWhile_idem)

lemma split_ws_space: "isspace c \<Longrightarrow> split_ws (c # s) = split_ws s"
  by (subst (1 2) split_ws.simps) (simp add: Let_def)

lemma split_ws_append_space:
  "isspace c \<Longrightarrow> split_ws (a @ c # y) = split_ws a @ split_ws y"
proof (induction a rule: split_ws.induct)
  case (1 s)
  let ?t = "dropWhile isspace s"
  show ?case
  proof (cases "?t = []")
    case True
    then have all: "\<forall>x\<in>set s. isspace x" by (simp add: dropWhile_eq_Nil_conv)
    have "split_ws s = []" using True by (subst split_ws.simps) (simp add: Let_def)
    moreover have "dropWhile isspace (s @ c # y) = dropWhile isspace y"
      using all 1(2) by (simp add: dropWhile_append2)
    then have "split_ws (s @ c # y) = split_ws y"
      by (metis split_ws_dropWhile)
    ultimately show ?thesis by simp
  next
    case False
    let ?w = "takeWhile (\<lambda>c. \<not> isspace c) ?t"
    let ?rest = "dropWhile (\<lambda>c. \<not> isspace c) ?t"
    have s: "split_ws s = ?w # split_ws ?rest"
      using False by (subst split_ws.simps) (simp add: Let_def)
    obtain x where x: "x \<in> set s" "\<not> isspace x" using False by (auto simp: dropWhile_eq_Nil_conv)
    have d: "dropWhile isspace (s @ c # y) = ?t @ c # y"
      using x by (simp add: dropWhile_append1)
    have tw: "takeWhile (\<lambda>c. \<not> isspace c) (?t @ c # y) = ?w"
      using 1(2) by (simp add: takeWhile_append_stop)
    have dw: "dropWhile (\<lambda>c. \<not> isspace c) (?t @ c # y) = ?rest @ c # y"
      using 1(2) by (simp add: dropWhile_append_stop)
    have "split_ws (s @ c # y) = ?w # split_ws (?rest @ c # y)"
      using d tw dw False by (subst split_ws.simps) (simp add: Let_def)
    also have "split_ws (?rest @ c # y) = split_ws ?rest @ split_ws y"
      using 1(1) [OF refl False] 1(2) by simp
    finally show ?thesis using s by simp
  qed
qed

lemma pop_all_split_ws:
  "\<exists>entries. pop_all l = Inr entries \<and> (entries = [] \<longleftrightarrow> line_remainder l = []) \<and>
      split_ws (join '' '' entries) = split_ws (line_remainder l)"
proof (induction l rule: pop_all.induct)
  case (1 l)
  let ?line = "line_remainder l"
  show ?case
  proof (cases "?line = []")
    case True
    then show ?thesis by (subst pop_all.simps) (simp add: is_empty_def)
  next
    case ne: False
    obtain a rest where ar: "(if CHR '' '' \<in> set ?line then split1 CHR '' '' ?line else (?line, [])) = (a, rest)"
      by (cases "if CHR '' '' \<in> set ?line then split1 CHR '' '' ?line else (?line, [])")
    let ?l' = "l\<lparr>line_remainder := lstrip rest\<rparr>"
    have p: "pop l False False = Inr (a, ?l')"
      using ne ar by (simp add: pop_def parse_entry_def)
    from 1 [OF _ p refl] ne obtain entries where
      e: "pop_all ?l' = Inr entries" "entries = [] \<longleftrightarrow> lstrip rest = []"
         "split_ws (join '' '' entries) = split_ws (lstrip rest)"
      by (auto simp: is_empty_def)
    have pa: "pop_all l = Inr (a # entries)"
      using ne p e(1) by (subst pop_all.simps) (simp add: is_empty_def)
    have sp: "isspace CHR '' ''" by (simp add: isspace_def)
    have line: "split_ws ?line = split_ws a @ split_ws rest"
    proof (cases "CHR '' '' \<in> set ?line")
      case True
      then have "?line = a @ CHR '' '' # rest"
        using ar split1_append [of "CHR '' ''" ?line] by (simp add: split1_def)
      then show ?thesis using split_ws_append_space [OF sp] by simp
    next
      case False
      then show ?thesis using ar by (auto simp: split_ws_Nil)
    qed
    have rest: "split_ws (lstrip rest) = split_ws rest"
      by (simp add: lstrip_def split_ws_dropWhile)
    have "split_ws (join '' '' (a # entries)) = split_ws a @ split_ws rest"
    proof (cases entries)
      case Nil
      then show ?thesis using e rest by (simp add: split_ws_Nil)
    next
      case (Cons b bs)
      then have "join '' '' (a # entries) = a @ CHR '' '' # join '' '' entries" by simp
      then show ?thesis using split_ws_append_space [OF sp] e(3) rest by simp
    qed
    with pa line ne show ?thesis by simp
  qed
qed

text \<open>
  C7: popping every entry of a line with \<open>pop()\<close> ends, and the entries joined by single
  spaces are the line up to whitespace: both split into the same whitespace-separated words
  (quotes are left in place by an unquoted pop).
\<close>

theorem pop_all_reproduces_line:
  "\<exists>entries. pop_all (ControlLine line) = Inr entries \<and>
      split_ws (join '' '' entries) = split_ws line"
  using pop_all_split_ws [of "ControlLine line"] by (auto simp: ControlLine_def)


section \<open>The documented exit policy\<close>

text \<open>
  C1: for \<open>ExitPolicy("accept *:80", "accept *:443", "reject *:*")\<close>, \<open>summary()\<close>
  returns "accept 80, 443", \<open>can_exit_to("75.119.206.243", 80)\<close> returns True and
  \<open>can_exit_to("75.119.206.243", 22)\<close> returns False, on the policy as the summary left
  it and on a fresh one.
\<close>

theorem example_policy_scenario:
  "summary example_policy = Inr (''accept 80, 443'', example_policy_loaded (Some ''accept 80, 443'')) \<and>
   can_exit_to (example_policy_loaded (Some ''accept 80, 443'')) (Some ''75.119.206.243'') (Some 80)
     = Inr (True, example_policy_loaded (Some ''accept 80, 443'')) \<and>
   can_exit_to (example_policy_loaded (Some ''accept 80, 443'')) (Some ''75.119.206.243'') (Some 22)
     = Inr (False, example_policy_loaded (Some ''accept 80, 443'')) \<and>
   can_exit_to example_policy (Some ''75.119.206.243'') (Some 80) = Inr (True, example_policy_loaded None) \<and>
   can_exit_to example_policy (Some ''75.119.206.243'') (Some 22) = Inr (False, example_policy_loaded None)"
  by code_simp

section \<open>The documented microdescriptor policy\<close>

lemma micro_example_init:
  "MicrodescriptorExitPolicy ''accept 80,443'' = Inr (micro_example None (Some (map Inr micro_example_rules)))"
  by code_simp

lemma is_match_micro:
  assumes "is_micro r" "valid_address addr" "is_valid_port_int p False"
  shows "is_match r addr (Some p) = Inr (is_port_wildcard r \<or> (min_port r \<le> p \<and> p \<le> max_port r))"
  using assms
  by (auto simp: is_match_def match_rest_def match_address_def match_port_def valid_address_def
      get_address_type_def is_address_wildcard_def split: option.splits)

lemma load_rules_Inr: "load_rules (map Inr rs) = Inr rs"
  by (induction rs) auto

text \<open>
  C5: \<open>MicrodescriptorExitPolicy("accept 80,443")\<close> prints as "accept 80,443" and, for
  every valid address, allows exiting to port 443 and refuses port 22.
\<close>

theorem micro_example_scenario:
  "MicrodescriptorExitPolicy ''accept 80,443'' = Inr (micro_example None (Some (map Inr micro_example_rules))) \<and>
   micro_policy_str (micro_example None (Some (map Inr micro_example_rules))) = ''accept 80,443'' \<and>
   (\<forall>addr. valid_address addr \<longrightarrow>
      can_exit_to (micro_example None (Some (map Inr micro_example_rules))) addr (Some 443)
        = Inr (True, micro_example (Some micro_example_rules) None) \<and>
      can_exit_to (micro_example None (Some (map Inr micro_example_rules))) addr (Some 22)
        = Inr (False, micro_example (Some micro_example_rules) None))"
proof (intro conjI allI impI)
  show "MicrodescriptorExitPolicy ''accept 80,443'' = Inr (micro_example None (Some (map Inr micro_example_rules)))"
    by (rule micro_example_init)
  show "micro_policy_str (micro_example None (Some (map Inr micro_example_rules))) = ''accept 80,443''"
    by (simp add: micro_policy_str_def micro_example_def)
next
  fix addr assume v: "valid_address addr"
  have g: "get_rules (micro_example None (Some (map Inr micro_example_rules)))
      = Inr (micro_example_rules, micro_example (Some micro_example_rules) None)"
    by (simp add: get_rules_def micro_example_def load_rules_Inr)
  have m: "is_micro (MicroExitPolicyRule a b c)" for a b c by (simp add: MicroExitPolicyRule_def)
  have p443: "is_valid_port_int 443 False" and p22: "is_valid_port_int 22 False"
    by (simp_all add: is_valid_port_int_def)
  have "first_match micro_example_rules addr (Some 443) = Inr (Some True)"
    using is_match_micro [OF m v p443]
    by (simp add: micro_example_rules_def is_port_wildcard_def MicroExitPolicyRule_def)
  then show "can_exit_to (micro_example None (Some (map Inr micro_example_rules))) addr (Some 443)
        = Inr (True, micro_example (Some micro_example_rules) None)"
    using g by (simp add: can_exit_to_def)
  have "first_match micro_example_rules addr (Some 22) = Inr None"
    using is_match_micro [OF m v p22]
    by (simp add: micro_example_rules_def is_port_wildcard_def MicroExitPolicyRule_def)
  then show "can_exit_to (micro_example None (Some (map Inr micro_example_rules))) addr (Some 22)
        = Inr (False, micro_example (Some micro_example_rules) None)"
    using g by (simp add: can_exit_to_def micro_example_def)
qed

lemma valid_address_example: "valid_address (Some ''75.119.206.243'')"
  by code_simp

theorem micro_example_scenario_witness:
  "valid_address (Some ''75.119.206.243'') \<and>
   can_exit_to (micro_example None (Some (map Inr micro_example_rules))) (Some ''75.119.206.243'') (Some 443)
        = Inr (True, micro_example (Some micro_example_rules) None) \<and>
   can_exit_to (micro_example None (Some (map Inr micro_example_rules))) (Some ''75.119.206.243'') (Some 22)
        = Inr (False, micro_example (Some micro_example_rules) None)"
  using micro_example_scenario valid_address_example by blast


section \<open>Port ranges of a parsed rule\<close>

lemma apply_addrspec_keeps:
  assumes "apply_addrspec self addrspec = Inr r"
  shows "min_port r = min_port self \<and> max_port r = max_port self
         \<and> is_accept r = is_accept self \<and> is_micro r = is_micro self"
  using assms unfolding apply_addrspec_def
  by (auto simp: Let_def split: if_splits option.splits sum.splits prod.splits)

lemma apply_portspec_range:
  assumes "apply_portspec self portspec = Inr r"
  shows "0 \<le> min_port r \<and> min_port r \<le> max_port r \<and> max_port r \<le> 65535"
  using assms unfolding apply_portspec_def
  by (auto simp: is_valid_port_str_def is_valid_port_list_def is_valid_port_int_def
      split: if_splits prod.splits)

text \<open>
  C4, as amended: the ports of a rule parsed from a string satisfy
  \<open>0 \<le> min_port \<le> max_port \<le> 65535\<close>; \<open>_apply_portspec\<close> asks for \<open>allow_zero\<close>.
\<close>

theorem ExitPolicyRule_port_range:
  assumes "ExitPolicyRule rule = Inr r"
  shows "0 \<le> min_port r \<and> min_port r \<le> max_port r \<and> max_port r \<le> 65535"
  using assms unfolding ExitPolicyRule_def
  by (auto simp: Let_def apply_portspec_range split: if_splits prod.splits sum.splits)

theorem ExitPolicyRule_port_range_witness:
  "ExitPolicyRule ''accept 10.0.0.0/8:80-90'' =
     Inr \<lparr>is_micro = False, is_accept = True, address = Some ''10.0.0.0'', address_type = Some 1,
          masked_bits = Some 8, mask_str = None, min_port = 80, max_port = 90\<rparr> \<and>
   0 \<le> (80::int) \<and> (80::int) \<le> 90 \<and> (90::int) \<le> 65535"
  using ExitPolicyRule_port_range [of "''accept 10.0.0.0/8:80-90''"
     "\<lparr>is_micro = False, is_accept = True, address = Some ''10.0.0.0'', address_type = Some 1,
          masked_bits = Some 8, mask_str = None, min_port = 80, max_port = 90\<rparr>"]
  by code_simp

text \<open>
  C4, as stated, fails: the rule string "accept *:0" is accepted, with \<open>min_port = 0\<close>.
\<close>

theorem ExitPolicyRule_port_zero:
  "ExitPolicyRule ''accept *:0'' =
     Inr \<lparr>is_micro = False, is_accept = True, address = None, address_type = Some 0,
          masked_bits = None, mask_str = None, min_port = 0, max_port = 0\<rparr> \<and>
   \<not> 1 \<le> min_port \<lparr>is_micro = False, is_accept = True, address = None, address_type = Some 0,
          masked_bits = None, mask_str = None, min_port = 0, max_port = 0\<rparr>"
  by code_simp

section \<open>The default of a policy\<close>

text \<open>
  C10: a policy built by \<open>ExitPolicy\<close> allows by default, so \<open>can_exit_to\<close> returns True
  for a probe that none of its rules matches; \<open>MicrodescriptorExitPolicy\<close> sets the
  default to the negation of its \<open>is_accept\<close>.
\<close>

theorem default_allowed:
  "is_allowed_default (ExitPolicy rs) = True \<and>
   (\<forall>loaded p' addr port.
      get_rules (ExitPolicy rs) = Inr (loaded, p') \<and> (\<forall>r\<in>set loaded. is_match r addr port = Inr False)
      \<longrightarrow> can_exit_to (ExitPolicy rs) addr port = Inr (True, p')) \<and>
   (\<forall>s p. MicrodescriptorExitPolicy s = Inr p
      \<longrightarrow> policy_is_accept p = startswith s ''accept'' \<and> is_allowed_default p = (\<not> policy_is_accept p))"
proof (intro conjI allI impI)
  show "is_allowed_default (ExitPolicy rs) = True" by (simp add: ExitPolicy_def)
next
  fix loaded p' addr port
  assume a: "get_rules (ExitPolicy rs) = Inr (loaded, p') \<and> (\<forall>r\<in>set loaded. is_match r addr port = Inr False)"
  have fm: "(\<forall>r\<in>set xs. is_match r addr port = Inr False) \<Longrightarrow> first_match xs addr port = Inr None" for xs
    by (induction xs) auto
  have "is_allowed_default p' = True"
    using a by (auto simp: get_rules_def ExitPolicy_def split: sum.splits)
  with a fm [of loaded] show "can_exit_to (ExitPolicy rs) addr port = Inr (True, p')"
    by (simp add: can_exit_to_def)
next
  fix s p assume "MicrodescriptorExitPolicy s = Inr p"
  then show "policy_is_accept p = startswith s ''accept''"
    by (auto simp: MicrodescriptorExitPolicy_def Let_def set_default_allowed_def ExitPolicy_def
        exit_policy.extend_def microdescriptor_exit_policy.fields_def
        split: if_splits sum.splits)
next
  fix s p assume "MicrodescriptorExitPolicy s = Inr p"
  then show "is_allowed_default p = (\<not> policy_is_accept p)"
    by (auto simp: MicrodescriptorExitPolicy_def Let_def set_default_allowed_def ExitPolicy_def
        exit_policy.extend_def microdescriptor_exit_policy.fields_def
        split: if_splits sum.splits)
qed

lemma default_allowed_example:
  "get_rules (ExitPolicy [Inl ''reject *:80'']) =
     Inr ([\<lparr>is_micro = False, is_accept = False, address = None, address_type = Some 0,
            masked_bits = None, mask_str = None, min_port = 80, max_port = 80\<rparr>],
          \<lparr>rules = Some [\<lparr>is_micro = False, is_accept = False, address = None, address_type = Some 0,
            masked_bits = None, mask_str = None, min_port = 80, max_port = 80\<rparr>],
           input_rules = None, is_allowed_default = True, summary_representation = None\<rparr>) \<and>
   is_match \<lparr>is_micro = False, is_accept = False, address = None, address_type = Some 0,
            masked_bits = None, mask_str = None, min_port = 80, max_port = 80\<rparr>
       (Some ''75.119.206.243'') (Some 22) = Inr False"
  by code_simp

theorem default_allowed_witness:
  "can_exit_to (ExitPolicy [Inl ''reject *:80'']) (Some ''75.119.206.243'') (Some 22) =
     Inr (True, \<lparr>rules = Some [\<lparr>is_micro = False, is_accept = False, address = None, address_type = Some 0,
            masked_bits = None, mask_str = None, min_port = 80, max_port = 80\<rparr>],
           input_rules = None, is_allowed_default = True, summary_representation = None\<rparr>) \<and>
   MicrodescriptorExitPolicy ''accept 80,443'' = Inr (micro_example None (Some (map Inr micro_example_rules))) \<and>
   is_allowed_default (micro_example None (Some (map Inr micro_example_rules))) = False \<and>
   policy_is_accept (micro_example None (Some (map Inr micro_example_rules))) = True"
  using default_allowed [of "[Inl ''reject *:80'']"] default_allowed_example micro_example_init
  by (simp add: micro_example_def)


section \<open>First match wins\<close>

subsection \<open>Decimal and hexadecimal digits\<close>

lemma isdigit_chr_char_of: "(d::nat) < 10 \<Longrightarrow> isdigit_chr (char_of (48 + d))"
  by (simp add: isdigit_chr_def)

lemma str_nat_digits: "list_all isdigit_chr (str_nat n)"
proof (induction n rule: str_nat.induct)
  case (1 n)
  show ?case
  proof (cases "n < 10")
    case True
    then show ?thesis by (subst str_nat.simps) (simp add: isdigit_chr_char_of)
  next
    case False
    have "n mod 10 < 10" by simp
    with 1 False show ?thesis
      by (subst str_nat.simps) (simp add: isdigit_chr_char_of del: str_nat.simps)
  qed
qed

lemma str_nat_nonempty: "str_nat n \<noteq> []"
  by (subst str_nat.simps) simp

lemma isdigit_str_nat: "isdigit (str_nat n)"
  by (simp add: isdigit_def str_nat_digits str_nat_nonempty del: str_nat.simps)

lemma nat_of_digits_snoc: "nat_of_digits (s @ [c]) = 10 * nat_of_digits s + (of_char c - 48)"
  by (simp add: nat_of_digits_def)

lemma nat_of_digits_str_nat: "nat_of_digits (str_nat n) = n"
proof (induction n rule: str_nat.induct)
  case (1 n)
  show ?case
  proof (cases "n < 10")
    case True
    then show ?thesis by (subst str_nat.simps) (simp add: nat_of_digits_def)
  next
    case False
    have "n mod 10 < 10" by simp
    then have "(48 + n mod 10) mod 256 = 48 + n mod 10" by simp
    with 1 False show ?thesis
      by (subst str_nat.simps) (simp add: nat_of_digits_snoc del: str_nat.simps)
  qed
qed

lemma isdigit_chr_not: "isdigit_chr c \<Longrightarrow> c \<noteq> CHR ''.'' \<and> c \<noteq> CHR '':'' \<and> c \<noteq> CHR ''/''
    \<and> c \<noteq> CHR ''-'' \<and> c \<noteq> CHR ''*'' \<and> c \<noteq> CHR ''['' \<and> c \<noteq> CHR '']'' \<and> c \<noteq> CHR '' ''"
  by (auto simp: isdigit_chr_def)

lemma str_nat_no_sep:
  "CHR ''.'' \<notin> set (str_nat n)" "CHR '':'' \<notin> set (str_nat n)" "CHR ''/'' \<notin> set (str_nat n)"
  "CHR ''-'' \<notin> set (str_nat n)"
  using str_nat_digits [of n] isdigit_chr_not by (auto simp: list_all_iff simp del: str_nat.simps)

subsection \<open>Splitting a joined list\<close>

lemma split_chr_no_sep: "c \<notin> set x \<Longrightarrow> split_chr c x = [x]"
  by (induction x) auto

lemma split_chr_append: "c \<notin> set x \<Longrightarrow> split_chr c (x @ c # rest) = x # split_chr c rest"
  by (induction x) auto

lemma split_chr_join:
  "gs \<noteq> [] \<Longrightarrow> \<forall>g\<in>set gs. c \<notin> set g \<Longrightarrow> split_chr c (join [c] gs) = gs"
proof (induction "[c]" gs rule: join.induct)
  case 1
  then show ?case by simp
next
  case (2 x)
  then show ?case by (simp add: split_chr_no_sep)
next
  case (3 x y ys)
  then show ?case by (simp add: split_chr_append)
qed

lemma split_chr_nonempty: "split_chr c s \<noteq> []"
  by (induction s) (auto split: list.splits)

lemma split_chr_chars: "g \<in> set (split_chr c s) \<Longrightarrow> set g \<subseteq> set s \<and> c \<notin> set g"
proof (induction s arbitrary: g)
  case Nil
  then show ?case by simp
next
  case (Cons x xs)
  show ?case
  proof (cases "x = c")
    case True
    with Cons show ?thesis by auto
  next
    case False
    obtain h hs where h: "split_chr c xs = h # hs"
      using split_chr_nonempty [of c xs] by (cases "split_chr c xs") auto
    from False Cons.prems h have "g = x # h \<or> g \<in> set hs" by simp
    then show ?thesis
    proof
      assume g: "g = x # h"
      have "set h \<subseteq> set xs \<and> c \<notin> set h" using Cons.IH [of h] h by simp
      with g False show ?thesis by auto
    next
      assume "g \<in> set hs"
      then have "set g \<subseteq> set xs \<and> c \<notin> set g" using Cons.IH [of g] h by simp
      then show ?thesis by auto
    qed
  qed
qed

lemma set_split_chr: "set s \<subseteq> insert c (\<Union> (set ` set (split_chr c s)))"
proof (induction s)
  case Nil
  then show ?case by simp
next
  case (Cons x xs)
  obtain h hs where h: "split_chr c xs = h # hs"
    using split_chr_nonempty [of c xs] by (cases "split_chr c xs") auto
  with Cons show ?case by auto
qed


subsection \<open>The helpers succeed on what the constructor stores\<close>

lemma address_bin_valid:
  "is_valid_ip_address a \<or> is_valid_ipv6_address a \<Longrightarrow> \<exists>n. address_bin a = Inr n"
  by (auto simp: address_bin_def)

lemma is_valid_ip_address_octets:
  assumes "length os = 4" "\<forall>n\<in>set os. n \<le> 255"
  shows "is_valid_ip_address (join ''.'' (map str_nat os))"
proof -
  have "split_chr CHR ''.'' (join [CHR ''.''] (map str_nat os)) = map str_nat os"
    using assms(1) by (intro split_chr_join) (auto simp: str_nat_no_sep simp del: str_nat.simps)
  then show ?thesis
    using assms
    by (simp add: is_valid_ip_address_def list_all_iff isdigit_str_nat nat_of_digits_str_nat
        del: str_nat.simps)
qed

lemma get_mask_valid:
  assumes "0 \<le> b" "b \<le> 32"
  shows "\<exists>m. get_mask b = Inr m \<and> is_valid_ip_address m"
proof -
  let ?v = "mask_value 32 (nat b)"
  let ?os = "map (\<lambda>i. ?v div 256 ^ (3 - i) mod 256) [0..<4]"
  have "is_valid_ip_address (join ''.'' (map str_nat ?os))"
  proof (rule is_valid_ip_address_octets)
    show "length ?os = 4" by simp
    show "\<forall>n\<in>set ?os. n \<le> 255"
    proof
      fix n assume "n \<in> set ?os"
      then obtain i where "n = ?v div 256 ^ (3 - i) mod 256" by auto
      moreover have "?v div 256 ^ (3 - i) mod 256 < 256" by simp
      ultimately show "n \<le> 255" by simp
    qed
  qed
  moreover have "get_mask b = Inr (join ''.'' (map str_nat ?os))"
    using assms by (simp add: get_mask_def Let_def comp_def del: str_nat.simps upt_Suc)
  ultimately show ?thesis by blast
qed

lemma is_hex_chr_hex_chr: "d < 16 \<Longrightarrow> is_hex_chr (hex_chr d)"
  by (auto simp: is_hex_chr_def hex_chr_def Let_def)

lemma hex_chr_not_colon: "d < 16 \<Longrightarrow> hex_chr d \<noteq> CHR '':''"
proof
  assume d: "d < 16" and "hex_chr d = CHR '':''"
  then have "(of_char (hex_chr d) :: nat) = 58" by simp
  with d show False by (auto simp: hex_chr_def split: if_splits)
qed

lemma hex4_props:
  "length (hex4 n) = 4" "list_all is_hex_chr (hex4 n)" "CHR '':'' \<notin> set (hex4 n)"
  using hex_chr_not_colon [of "n div 4096 mod 16"] hex_chr_not_colon [of "n div 256 mod 16"]
    hex_chr_not_colon [of "n div 16 mod 16"] hex_chr_not_colon [of "n mod 16"]
  by (auto simp: hex4_def is_hex_chr_hex_chr)

lemma is_valid_ipv6_address_groups:
  assumes "length gs = 8" "\<forall>g\<in>set gs. length g = 4 \<and> list_all is_hex_chr g \<and> CHR '':'' \<notin> set g"
  shows "is_valid_ipv6_address (join '':'' gs)"
    and "split_chr CHR '':'' (join '':'' gs) = gs"
    and "collapsed_groups gs = []"
proof -
  show s: "split_chr CHR '':'' (join '':'' gs) = gs"
    using assms by (intro split_chr_join) auto
  have ne: "\<forall>i<length gs. gs ! i \<noteq> []"
    using assms(2) by (metis length_0_conv nth_mem zero_neq_numeral)
  show c: "collapsed_groups gs = []"
    using ne by (auto simp: collapsed_groups_def filter_empty_conv)
  show "is_valid_ipv6_address (join '':'' gs)"
    using assms s c by (simp add: is_valid_ipv6_address_def list_all_iff)
qed

lemma get_mask_ipv6_valid:
  assumes "0 \<le> b" "b \<le> 128"
  shows "\<exists>m. get_mask_ipv6 b = Inr m \<and> is_valid_ipv6_address m"
proof -
  let ?v = "mask_value 128 (nat b)"
  let ?gs = "map (\<lambda>i. hex4 (?v div 65536 ^ (7 - i) mod 65536)) [0..<8]"
  have "is_valid_ipv6_address (join '':'' ?gs)"
    by (rule is_valid_ipv6_address_groups) (auto simp: hex4_props)
  moreover have "get_mask_ipv6 b = Inr (join '':'' ?gs)"
    using assms by (simp add: get_mask_ipv6_def Let_def del: upt_Suc)
  ultimately show ?thesis by blast
qed


lemma is_hex_chr_not:
  "is_hex_chr c \<Longrightarrow> c \<noteq> CHR ''['' \<and> c \<noteq> CHR '']'' \<and> c \<noteq> CHR '':'' \<and> c \<noteq> CHR ''/''
     \<and> c \<noteq> CHR ''.'' \<and> c \<noteq> CHR ''*''"
  by (auto simp: is_hex_chr_def Let_def)

lemma valid_ipv6_chars:
  assumes "is_valid_ipv6_address x"
  shows "\<forall>c\<in>set x. is_hex_chr c \<or> c = CHR '':''"
proof
  fix c assume "c \<in> set x"
  then have "c = CHR '':'' \<or> (\<exists>g\<in>set (split_chr CHR '':'' x). c \<in> set g)"
    using set_split_chr [of x "CHR '':''"] by auto
  moreover have "\<forall>g\<in>set (split_chr CHR '':'' x). list_all is_hex_chr g"
    using assms by (simp add: is_valid_ipv6_address_def Let_def list_all_iff)
  ultimately show "is_hex_chr c \<or> c = CHR '':''" by (auto simp: list_all_iff)
qed

lemma valid_ipv6_nonempty: "is_valid_ipv6_address x \<Longrightarrow> x \<noteq> []"
  by (auto simp: is_valid_ipv6_address_def collapsed_groups_def)

lemma valid_ip_nonempty: "is_valid_ip_address x \<Longrightarrow> x \<noteq> []"
  by (auto simp: is_valid_ip_address_def)

lemma dropWhile_eq_id: "x \<noteq> [] \<Longrightarrow> hd x \<noteq> c \<Longrightarrow> dropWhile (\<lambda>y. y = c) x = x"
  by (cases x) auto

lemma strip_no_brackets:
  assumes "x \<noteq> []" "CHR ''['' \<notin> set x" "CHR '']'' \<notin> set x"
  shows "rev (dropWhile (\<lambda>c. c = CHR '']'') (rev (dropWhile (\<lambda>c. c = CHR ''['') x))) = x"
proof -
  have "hd x \<noteq> CHR ''[''" using assms by (cases x) auto
  then have a: "dropWhile (\<lambda>c. c = CHR ''['') x = x" using assms(1) by (rule dropWhile_eq_id [rotated])
  have "hd (rev x) \<noteq> CHR '']''" using assms by (metis hd_rev last_in_set)
  then have "dropWhile (\<lambda>c. c = CHR '']'') (rev x) = rev x"
    using assms(1) by (intro dropWhile_eq_id) auto
  with a show ?thesis by simp
qed

lemma strip_brackets_valid:
  assumes "is_valid_ipv6_address_brackets a"
  shows "is_valid_ipv6_address
           (rev (dropWhile (\<lambda>c. c = CHR '']'') (rev (dropWhile (\<lambda>c. c = CHR ''['') a))))"
proof (cases "startswith a ''['' \<and> endswith a '']''")
  case False
  then have v: "is_valid_ipv6_address a" using assms by (simp add: is_valid_ipv6_address_brackets_def)
  have "CHR ''['' \<notin> set a" "CHR '']'' \<notin> set a"
    using valid_ipv6_chars [OF v] is_hex_chr_not by auto
  with v show ?thesis by (simp add: strip_no_brackets valid_ipv6_nonempty)
next
  case True
  let ?x = "slice_inner a"
  have v: "is_valid_ipv6_address ?x" using assms True by (simp add: is_valid_ipv6_address_brackets_def)
  have nb: "CHR ''['' \<notin> set ?x" "CHR '']'' \<notin> set ?x"
    using valid_ipv6_chars [OF v] is_hex_chr_not by auto
  have ne: "?x \<noteq> []" using v by (rule valid_ipv6_nonempty)
  obtain t where t: "a = CHR ''['' # t" using True by (cases a) (auto simp: startswith_def)
  have tne: "t \<noteq> []" using ne t by (auto simp: slice_inner_def)
  have "last a = CHR '']''"
    using True t by (auto simp: endswith_def last_conv_nth nth_via_drop
        dest!: arg_cong [where f = hd] simp: hd_drop_conv_nth)
  then have "last t = CHR '']''" using t tne by simp
  then have "t = ?x @ '']''" using t tne by (simp add: slice_inner_def) (metis append_butlast_last_id)
  with t have a: "a = CHR ''['' # ?x @ '']''" by simp
  have h: "hd ?x \<noteq> CHR ''[''" using nb ne by (cases ?x) auto
  have l: "last ?x \<noteq> CHR '']''" using nb ne by (metis last_in_set)
  have "dropWhile (\<lambda>c. c = CHR ''['') a = ?x @ '']''"
    using h ne by (subst a) (cases ?x, auto)
  moreover have "dropWhile (\<lambda>c. c = CHR '']'') (rev (?x @ '']'')) = rev ?x"
    using l ne by (cases "rev ?x") (auto simp: last_rev hd_rev)
  ultimately show ?thesis using v by simp
qed


subsection \<open>is_match raises nothing on a valid probe\<close>

lemma get_address_type_wf:
  assumes "rule_wf r"
  shows "\<exists>t. get_address_type r = Inr t \<and>
    (is_address_wildcard r \<longleftrightarrow> t = WILDCARD) \<and>
    (\<not> is_micro r \<longrightarrow> address_type r = Some (address_type_to_int t))"
  using assms
  by (auto simp: rule_wf_def get_address_type_def int_to_address_type_def is_address_wildcard_def
      split: option.splits)

lemma get_mask_bin_total:
  assumes "rule_wf r" "\<not> is_address_wildcard r"
  shows "\<exists>n. get_mask_bin r = Inr n"
proof -
  have nm: "\<not> is_micro r" using assms(2) by (auto simp: is_address_wildcard_def)
  from assms nm consider
    (v4m) m where "address_type r = Some 1" "mask_str r = Some m" "is_valid_ip_address m"
  | (v4b) b where "address_type r = Some 1" "mask_str r = None" "masked_bits r = Some b" "0 \<le> b" "b \<le> 32"
  | (v6) b where "address_type r = Some 2" "mask_str r = None" "masked_bits r = Some b" "0 \<le> b" "b \<le> 128"
    by (auto simp: rule_wf_def is_address_wildcard_def split: option.splits)
  then show ?thesis
  proof cases
    case v4m
    then have "rule_get_mask r = Inr (Some m)"
      using nm valid_ip_nonempty [of m] by (simp add: rule_get_mask_def)
    then show ?thesis using address_bin_valid [of m] v4m by (auto simp: get_mask_bin_def)
  next
    case v4b
    obtain m where m: "get_mask b = Inr m" "is_valid_ip_address m"
      using get_mask_valid [OF v4b(4,5)] by blast
    have "rule_get_mask r = Inr (Some m)"
      using nm v4b m by (simp add: rule_get_mask_def get_address_type_def int_to_address_type_def)
    then show ?thesis using address_bin_valid [of m] m by (auto simp: get_mask_bin_def)
  next
    case v6
    obtain m where m: "get_mask_ipv6 b = Inr m" "is_valid_ipv6_address m"
      using get_mask_ipv6_valid [OF v6(4,5)] by blast
    have "rule_get_mask r = Inr (Some m)"
      using nm v6 m by (simp add: rule_get_mask_def get_address_type_def int_to_address_type_def)
    then show ?thesis using address_bin_valid [of m] m by (auto simp: get_mask_bin_def)
  qed
qed

lemma get_address_bin_total:
  assumes "rule_wf r" "\<not> is_address_wildcard r"
  shows "\<exists>n. get_address_bin r mask_bin = Inr n"
proof -
  have "\<exists>a. address r = Some a \<and> (is_valid_ip_address a \<or> is_valid_ipv6_address a)"
    using assms by (auto simp: rule_wf_def is_address_wildcard_def split: option.splits if_splits)
  then obtain a where "address r = Some a" "is_valid_ip_address a \<or> is_valid_ipv6_address a"
    by blast
  then show ?thesis using address_bin_valid [of a] by (auto simp: get_address_bin_def)
qed

lemma match_address_total:
  assumes "rule_wf r"
    and "case addr of None \<Rightarrow> True | Some a \<Rightarrow> is_valid_ip_address a \<or> is_valid_ipv6_address a"
  shows "\<exists>b. match_address r addr = Inr b"
proof (cases "is_address_wildcard r")
  case True
  then show ?thesis by (auto simp: match_address_def)
next
  case False
  show ?thesis
  proof (cases addr)
    case None
    with False show ?thesis by (auto simp: match_address_def)
  next
    case (Some a)
    obtain n where n: "address_bin a = Inr n" using assms(2) Some address_bin_valid [of a] by auto
    obtain mb where mb: "get_mask_bin r = Inr mb" using get_mask_bin_total [OF assms(1) False] by blast
    obtain ab where ab: "get_address_bin r mb = Inr ab"
      using get_address_bin_total [OF assms(1) False] by blast
    show ?thesis using False Some n mb ab by (auto simp: match_address_def)
  qed
qed

lemma match_rest_total:
  assumes "rule_wf r" "valid_port port"
    and "case addr of None \<Rightarrow> True | Some a \<Rightarrow> is_valid_ip_address a \<or> is_valid_ipv6_address a"
  shows "\<exists>b. match_rest r addr port = Inr b"
proof -
  obtain b where "match_address r addr = Inr b" using match_address_total [OF assms(1,3)] by blast
  then show ?thesis using assms(2)
    by (cases b) (auto simp: match_rest_def valid_port_def split: option.splits)
qed

lemma is_match_total:
  assumes "rule_wf r" "valid_address addr" "valid_port port"
  shows "\<exists>b. is_match r addr port = Inr b"
proof (cases addr)
  case None
  then show ?thesis using match_rest_total [OF assms(1,3), of None] by (auto simp: is_match_def)
next
  case (Some a)
  obtain t where t: "get_address_type r = Inr t" using get_address_type_wf [OF assms(1)] by blast
  show ?thesis
  proof (cases "is_valid_ip_address a")
    case True
    then show ?thesis
      using Some t match_rest_total [OF assms(1,3), of "Some a"] by (auto simp: is_match_def)
  next
    case False
    then have v: "is_valid_ipv6_address_brackets a"
      using assms(2) Some by (simp add: valid_address_def)
    show ?thesis
      using Some t False v strip_brackets_valid [OF v]
        match_rest_total [OF assms(1,3),
          of "Some (rev (dropWhile (\<lambda>c. c = CHR '']'') (rev (dropWhile (\<lambda>c. c = CHR ''['') a))))"]
      by (auto simp: is_match_def)
  qed
qed

subsection \<open>The constructors build well-formed rules\<close>

lemma get_masked_bits_range: "get_masked_bits m = Inr b \<Longrightarrow> 0 \<le> b \<and> b \<le> 32"
proof -
  assume a: "get_masked_bits m = Inr b"
  then obtain n where n: "find (\<lambda>bits. address_bin m = Inr (int (mask_value 32 bits))) [0..<33] = Some n"
    and b: "b = int n"
    by (auto simp: get_masked_bits_def split: if_splits option.splits)
  from n have "n \<in> set [0..<33]" by (metis find_Some_iff nth_mem)
  with b show ?thesis by auto
qed

lemma length_expand_groups:
  assumes "length gs \<le> 8" "length gs = 8 \<or> collapsed_groups gs \<noteq> []"
  shows "length (expand_groups gs) = 8"
proof (cases "collapsed_groups gs")
  case Nil
  with assms show ?thesis by (simp add: expand_groups_def)
next
  case (Cons i js)
  then have "i \<in> set (collapsed_groups gs)" by simp
  then have "i < length gs - 1" by (auto simp: collapsed_groups_def)
  with Cons assms(1) show ?thesis by (simp add: expand_groups_def)
qed

lemma set_expand_groups: "set (expand_groups gs) \<subseteq> insert [] (set gs)"
proof (cases "collapsed_groups gs")
  case Nil
  then show ?thesis by (auto simp: expand_groups_def)
next
  case (Cons i js)
  then show ?thesis
    by (auto simp: expand_groups_def dest: in_set_takeD in_set_dropD)
qed

lemma pad4_props:
  assumes "length g \<le> 4" "list_all is_hex_chr g"
  shows "length (pad4 g) = 4 \<and> list_all is_hex_chr (pad4 g) \<and> CHR '':'' \<notin> set (pad4 g)"
proof -
  have z: "is_hex_chr CHR ''0''" by (simp add: is_hex_chr_def)
  have h: "list_all is_hex_chr (pad4 g)" using assms z by (auto simp: pad4_def list_all_iff)
  then have "CHR '':'' \<notin> set (pad4 g)" using is_hex_chr_not by (auto simp: list_all_iff)
  with h assms show ?thesis by (simp add: pad4_def)
qed

lemma expanded_groups_props:
  assumes "is_valid_ipv6_address y"
  shows "length (map pad4 (expand_groups (split_chr CHR '':'' y))) = 8"
    and "\<forall>g\<in>set (map pad4 (expand_groups (split_chr CHR '':'' y))).
           length g = 4 \<and> list_all is_hex_chr g \<and> CHR '':'' \<notin> set g"
proof -
  let ?gs = "split_chr CHR '':'' y"
  show "length (map pad4 (expand_groups ?gs)) = 8"
    using assms by (simp add: is_valid_ipv6_address_def Let_def length_expand_groups)
  have "\<forall>g\<in>set ?gs. length g \<le> 4 \<and> list_all is_hex_chr g"
    using assms by (simp add: is_valid_ipv6_address_def Let_def list_all_iff)
  then have "\<forall>g\<in>set (expand_groups ?gs). length g \<le> 4 \<and> list_all is_hex_chr g"
    using set_expand_groups [of ?gs] by auto
  then show "\<forall>g\<in>set (map pad4 (expand_groups ?gs)).
           length g = 4 \<and> list_all is_hex_chr g \<and> CHR '':'' \<notin> set g"
    using pad4_props by auto
qed

lemma expand_ipv6_address_valid:
  assumes "expand_ipv6_address y = Inr e"
  shows "is_valid_ipv6_address e"
proof -
  have v: "is_valid_ipv6_address y" and e: "e = join '':'' (map pad4 (expand_groups (split_chr CHR '':'' y)))"
    using assms by (auto simp: expand_ipv6_address_def split: if_splits)
  show ?thesis unfolding e
    using expanded_groups_props [OF v] by (rule is_valid_ipv6_address_groups(1))
qed

lemma apply_addrspec_wf:
  assumes "apply_addrspec self addrspec = Inr r" "mask_str self = None" "\<not> is_micro self"
  shows "rule_wf r"
  using assms unfolding apply_addrspec_def
  by (auto simp: Let_def rule_wf_def dest: get_masked_bits_range expand_ipv6_address_valid
      split: if_splits option.splits sum.splits prod.splits)

lemma rule_wf_ports: "rule_wf (r\<lparr>min_port := lo, max_port := hi\<rparr>) = rule_wf r"
  by (simp add: rule_wf_def cong: option.case_cong)

lemma apply_portspec_wf:
  assumes "apply_portspec self portspec = Inr r" "rule_wf self"
  shows "rule_wf r"
proof -
  have "\<exists>lo hi. r = self\<lparr>min_port := lo, max_port := hi\<rparr>"
    using assms(1) unfolding apply_portspec_def
    by (auto split: if_splits prod.splits)
  then show ?thesis using assms(2) by (auto simp: rule_wf_ports)
qed

lemma ExitPolicyRule_wf: "ExitPolicyRule rule = Inr r \<Longrightarrow> rule_wf r"
  unfolding ExitPolicyRule_def
  by (auto simp: Let_def split: if_splits prod.splits sum.splits
      dest!: apply_addrspec_wf dest: apply_portspec_wf)

lemma MicroExitPolicyRule_wf: "rule_wf (MicroExitPolicyRule accept lo hi)"
  by (simp add: rule_wf_def MicroExitPolicyRule_def)

lemma load_rules_wf:
  assumes "load_rules inp = Inr rs"
    and "list_all (\<lambda>x. case x of Inl _ \<Rightarrow> True | Inr r \<Rightarrow> rule_wf r) inp"
  shows "list_all rule_wf rs"
  using assms
proof (induction inp arbitrary: rs rule: load_rules.induct)
  case 1
  then show ?case by simp
next
  case (2 rule rest)
  then show ?case by (auto split: sum.splits dest: ExitPolicyRule_wf)
next
  case (3 r rest)
  then show ?case by (auto split: sum.splits)
qed

lemma get_rules_wf:
  assumes "policy_wf p" "get_rules p = Inr (rs, p')"
  shows "list_all rule_wf rs" "is_allowed_default p' = is_allowed_default p"
  using assms
  by (auto simp: policy_wf_def get_rules_def split: option.splits sum.splits dest: load_rules_wf)

lemma first_match_find:
  assumes "\<forall>r\<in>set rs. \<exists>b. is_match r addr port = Inr b"
  shows "first_match rs addr port =
    Inr (map_option is_accept (find (\<lambda>r. is_match r addr port = Inr True) rs))"
  using assms by (induction rs) auto

text \<open>
  C2, as amended: the rule strings of a policy are parsed at the first use of the policy.
  On a valid probe, \<open>can_exit_to\<close> raises the error of \<open>_get_rules\<close> when a rule string
  does not parse; when they all parse, it returns the \<open>is_accept\<close> flag of the first rule
  whose \<open>is_match\<close> accepts the probe, and the default of the policy when no rule does.
  The rule objects given to the policy are those the constructors build.
\<close>

theorem can_exit_to_first_match:
  assumes "policy_wf p" "valid_address addr" "valid_port port"
  shows "case get_rules p of
           Inl e \<Rightarrow> can_exit_to p addr port = Inl e
         | Inr (rs, p') \<Rightarrow>
             can_exit_to p addr port =
               Inr (case find (\<lambda>r. is_match r addr port = Inr True) rs of
                      Some r \<Rightarrow> is_accept r
                    | None \<Rightarrow> is_allowed_default p, p')"
proof (cases "get_rules p")
  case (Inl e)
  then show ?thesis by (simp add: can_exit_to_def)
next
  case (Inr loaded)
  obtain rs p' where l: "loaded = (rs, p')" by (cases loaded)
  have g: "get_rules p = Inr (rs, p')" using Inr l by simp
  have wf: "list_all rule_wf rs" and d: "is_allowed_default p' = is_allowed_default p"
    using get_rules_wf [OF assms(1) g] by auto
  have "\<forall>r\<in>set rs. \<exists>b. is_match r addr port = Inr b"
    using wf is_match_total [OF _ assms(2,3)] by (auto simp: list_all_iff)
  then have "first_match rs addr port =
    Inr (map_option is_accept (find (\<lambda>r. is_match r addr port = Inr True) rs))"
    by (rule first_match_find)
  then show ?thesis using g d
    by (simp add: can_exit_to_def split: option.splits)
qed

theorem can_exit_to_first_match_witness:
  "policy_wf example_policy \<and>
   valid_address (Some ''75.119.206.243'') \<and> valid_port (Some 443) \<and>
   get_rules example_policy = Inr (example_rules, example_policy_loaded None) \<and>
   find (\<lambda>r. is_match r (Some ''75.119.206.243'') (Some 443) = Inr True) example_rules
     = Some (example_rules ! 1) \<and>
   can_exit_to example_policy (Some ''75.119.206.243'') (Some 443) =
    Inr (case find (\<lambda>r. is_match r (Some ''75.119.206.243'') (Some 443) = Inr True) example_rules of
           Some r \<Rightarrow> is_accept r
         | None \<Rightarrow> is_allowed_default example_policy, example_policy_loaded None)"
proof -
  have h1: "policy_wf example_policy" by code_simp
  have h2: "get_rules example_policy = Inr (example_rules, example_policy_loaded None)" by code_simp
  have h3: "valid_address (Some ''75.119.206.243'')" by code_simp
  have h4: "valid_port (Some 443)" by code_simp
  have h5: "find (\<lambda>r. is_match r (Some ''75.119.206.243'') (Some 443) = Inr True) example_rules
     = Some (example_rules ! 1)" by code_simp
  show ?thesis using h1 h2 h3 h4 h5 can_exit_to_first_match [OF h1 h3 h4] by simp
qed

text \<open>
  C2, as stated, fails: \<open>ExitPolicy("accept *:80", "bogus")\<close> is constructed without an
  error, its first rule matches the probe \<open>("75.119.206.243", 80)\<close> and accepts, and
  \<open>can_exit_to\<close> raises \<open>ValueError\<close> on that probe, because \<open>_get_rules\<close> parses every
  rule string before the first rule is tried.
\<close>

theorem can_exit_to_unparsed_rule:
  "policy_wf (ExitPolicy [Inl ''accept *:80'', Inl ''bogus'']) \<and>
   valid_address (Some ''75.119.206.243'') \<and> valid_port (Some 80) \<and>
   ExitPolicyRule ''accept *:80'' =
     Inr \<lparr>is_micro = False, is_accept = True, address = None, address_type = Some 0,
          masked_bits = None, mask_str = None, min_port = 80, max_port = 80\<rparr> \<and>
   is_match \<lparr>is_micro = False, is_accept = True, address = None, address_type = Some 0,
          masked_bits = None, mask_str = None, min_port = 80, max_port = 80\<rparr>
       (Some ''75.119.206.243'') (Some 80) = Inr True \<and>
   ExitPolicyRule ''bogus'' = Inl ValueError \<and>
   can_exit_to (ExitPolicy [Inl ''accept *:80'', Inl ''bogus'']) (Some ''75.119.206.243'') (Some 80)
     = Inl ValueError"
  by code_simp


section \<open>The string form of a rule parses back\<close>

subsection \<open>Strings\<close>

lemma join_split_chr: "join [c] (split_chr c s) = s"
proof (induction s)
  case Nil
  then show ?case by simp
next
  case (Cons x xs)
  obtain h hs where h: "split_chr c xs = h # hs"
    using split_chr_nonempty [of c xs] by (cases "split_chr c xs") auto
  show ?case
  proof (cases "x = c")
    case True
    with Cons h show ?thesis by simp
  next
    case False
    with Cons h show ?thesis by (cases hs) auto
  qed
qed

lemma split1_append_sep: "c \<notin> set a \<Longrightarrow> split1 c (a @ c # p) = (a, p)"
  by (induction a) (auto simp: split1_def)

lemma rsplit1_append_sep: "c \<notin> set p \<Longrightarrow> rsplit1 c (a @ c # p) = (a, p)"
  using split1_append_sep [of c "rev p" "rev a"] by (simp add: rsplit1_def)

lemma isdigit_str_int: "0 \<le> n \<Longrightarrow> isdigit (str_int n)"
  by (simp add: str_int_def isdigit_str_nat del: str_nat.simps)

lemma int_of_str_str_int: "0 \<le> n \<Longrightarrow> int_of_str (str_int n) = n"
  by (simp add: str_int_def int_of_str_def nat_of_digits_str_nat del: str_nat.simps)

lemma isdigit_set: "isdigit s \<Longrightarrow> \<forall>c\<in>set s. isdigit_chr c"
  by (simp add: isdigit_def list_all_iff)

lemma isdigit_no_sep:
  assumes "isdigit s"
  shows "CHR ''.'' \<notin> set s" "CHR '':'' \<notin> set s" "CHR ''/'' \<notin> set s" "CHR ''-'' \<notin> set s"
    "s \<noteq> ''*''" "s \<noteq> []" "\<not> isspace (hd s)"
proof -
  have d: "\<forall>c\<in>set s. isdigit_chr c" using assms by (rule isdigit_set)
  show ne: "s \<noteq> []" using assms by (simp add: isdigit_def)
  show "CHR ''.'' \<notin> set s" "CHR '':'' \<notin> set s" "CHR ''/'' \<notin> set s" "CHR ''-'' \<notin> set s"
    using d isdigit_chr_not by blast+
  show "s \<noteq> ''*''" using d isdigit_chr_not by fastforce
  have "isdigit_chr (hd s)" using d ne by simp
  then show "\<not> isspace (hd s)" by (auto simp: isdigit_chr_def isspace_def)
qed

lemma not_valid_ip_no_dot: "CHR ''.'' \<notin> set s \<Longrightarrow> \<not> is_valid_ip_address s"
  by (simp add: is_valid_ip_address_def split_chr_no_sep)

lemma valid_ip_chars:
  assumes "is_valid_ip_address a"
  shows "\<forall>c\<in>set a. isdigit_chr c \<or> c = CHR ''.''"
proof
  fix c assume "c \<in> set a"
  then have "c = CHR ''.'' \<or> (\<exists>g\<in>set (split_chr CHR ''.'' a). c \<in> set g)"
    using set_split_chr [of a "CHR ''.''"] by auto
  moreover have "\<forall>g\<in>set (split_chr CHR ''.'' a). list_all isdigit_chr g"
    using assms by (simp add: is_valid_ip_address_def Let_def list_all_iff isdigit_def)
  ultimately show "isdigit_chr c \<or> c = CHR ''.''" by (auto simp: list_all_iff)
qed

lemma hd_split_chr: "split_chr c s = g # gs \<Longrightarrow> g \<noteq> [] \<Longrightarrow> s \<noteq> [] \<and> hd s = hd g"
  by (cases s) (auto split: if_splits list.splits)

lemma valid_ip_props:
  assumes "is_valid_ip_address a"
  shows "CHR ''/'' \<notin> set a" "CHR '':'' \<notin> set a" "a \<noteq> ''*''" "a \<noteq> []" "\<not> isspace (hd a)"
proof -
  have ch: "\<forall>c\<in>set a. isdigit_chr c \<or> c = CHR ''.''" using assms by (rule valid_ip_chars)
  show "CHR ''/'' \<notin> set a" "CHR '':'' \<notin> set a" using ch isdigit_chr_not by auto
  show "a \<noteq> ''*''" using ch isdigit_chr_not by fastforce
  obtain g gs where g: "split_chr CHR ''.'' a = g # gs" "isdigit g"
    using assms by (cases "split_chr CHR ''.'' a") (auto simp: is_valid_ip_address_def)
  then have "a \<noteq> [] \<and> hd a = hd g" by (intro hd_split_chr) (auto simp: isdigit_def)
  then show "a \<noteq> []" "\<not> isspace (hd a)" using isdigit_no_sep(7) [OF g(2)] by auto
qed

subsection \<open>Canonical IPv6 addresses\<close>

lemma is_upper_hex_chr_props:
  assumes "is_upper_hex_chr c"
  shows "is_hex_chr c" "upper_chr c = c" "c \<noteq> CHR '':''" "c \<noteq> CHR ''/''" "c \<noteq> CHR ''.''"
    "c \<noteq> CHR ''[''" "c \<noteq> CHR '']''"
proof -
  have n: "(48 \<le> (of_char c :: nat) \<and> (of_char c :: nat) \<le> 57)
      \<or> (65 \<le> (of_char c :: nat) \<and> (of_char c :: nat) \<le> 70)"
    using assms by (simp add: is_upper_hex_chr_def Let_def)
  show "is_hex_chr c" using n unfolding is_hex_chr_def Let_def by blast
  have "\<not> (97 \<le> (of_char c :: nat) \<and> (of_char c :: nat) \<le> 122)" using n by arith
  then show "upper_chr c = c" unfolding upper_chr_def by (rule if_not_P)
  have "(of_char c :: nat) \<noteq> 58" "(of_char c :: nat) \<noteq> 47" "(of_char c :: nat) \<noteq> 46"
    "(of_char c :: nat) \<noteq> 91" "(of_char c :: nat) \<noteq> 93" using n by arith+
  then show "c \<noteq> CHR '':''" "c \<noteq> CHR ''/''" "c \<noteq> CHR ''.''" "c \<noteq> CHR ''[''" "c \<noteq> CHR '']''"
    by auto
qed

lemma upper_chr_hex:
  assumes "is_hex_chr (upper_chr c)"
  shows "is_upper_hex_chr (upper_chr c)"
proof (cases "97 \<le> (of_char c :: nat) \<and> (of_char c :: nat) \<le> 122")
  case True
  have u: "upper_chr c = char_of ((of_char c :: nat) - 32)" using True by (simp add: upper_chr_def)
  have "(of_char c :: nat) - 32 < 256" using True by arith
  then have "((of_char c :: nat) - 32) mod 256 = of_char c - 32" by (rule mod_less)
  then have o: "(of_char (upper_chr c) :: nat) = of_char c - 32" using u by simp
  have "65 \<le> (of_char c :: nat) - 32" "(of_char c :: nat) - 32 \<le> 90" using True by arith+
  with assms show ?thesis unfolding is_hex_chr_def is_upper_hex_chr_def Let_def o by arith
next
  case False
  then have u: "upper_chr c = c" unfolding upper_chr_def by (rule if_not_P)
  have "(48 \<le> (of_char c :: nat) \<and> (of_char c :: nat) \<le> 57)
      \<or> (65 \<le> (of_char c :: nat) \<and> (of_char c :: nat) \<le> 70)
      \<or> (97 \<le> (of_char c :: nat) \<and> (of_char c :: nat) \<le> 102)"
    using assms u by (simp add: is_hex_chr_def Let_def)
  with False have "(48 \<le> (of_char c :: nat) \<and> (of_char c :: nat) \<le> 57)
      \<or> (65 \<le> (of_char c :: nat) \<and> (of_char c :: nat) \<le> 70)" by arith
  then show ?thesis using u by (simp add: is_upper_hex_chr_def Let_def)
qed

lemma canonical_ipv6_props:
  assumes "canonical_ipv6 e"
  shows "is_valid_ipv6_address e" "expand_ipv6_address (upper e) = Inr e"
    "CHR ''/'' \<notin> set e" "CHR ''.'' \<notin> set e" "CHR ''['' \<notin> set e" "CHR '']'' \<notin> set e"
proof -
  let ?gs = "split_chr CHR '':'' e"
  have len: "length ?gs = 8"
    and gs: "\<forall>g\<in>set ?gs. length g = 4 \<and> list_all is_upper_hex_chr g"
    using assms by (simp_all add: canonical_ipv6_def Let_def list_all_iff)
  have gs': "\<forall>g\<in>set ?gs. length g = 4 \<and> list_all is_hex_chr g \<and> CHR '':'' \<notin> set g"
  proof (intro ballI conjI)
    fix g assume g: "g \<in> set ?gs"
    show "length g = 4" using gs g by blast
    have u: "\<forall>c\<in>set g. is_upper_hex_chr c" using gs g by (simp add: list_all_iff)
    show "list_all is_hex_chr g" using u is_upper_hex_chr_props(1) by (simp add: list_all_iff)
    show "CHR '':'' \<notin> set g" using u is_upper_hex_chr_props(3) by blast
  qed
  have e: "join '':'' ?gs = e" by (rule join_split_chr)
  show v: "is_valid_ipv6_address e"
    using is_valid_ipv6_address_groups(1) [OF len gs'] e by simp
  have ch: "\<forall>c\<in>set e. is_upper_hex_chr c \<or> c = CHR '':''"
  proof
    fix c assume "c \<in> set e"
    then have "c = CHR '':'' \<or> (\<exists>g\<in>set ?gs. c \<in> set g)"
      using set_split_chr [of e "CHR '':''"] by auto
    then show "is_upper_hex_chr c \<or> c = CHR '':''" using gs by (auto simp: list_all_iff)
  qed
  show "CHR ''/'' \<notin> set e" "CHR ''.'' \<notin> set e" "CHR ''['' \<notin> set e" "CHR '']'' \<notin> set e"
  proof -
    have "\<not> is_upper_hex_chr CHR ''/''" "\<not> is_upper_hex_chr CHR ''.''"
      "\<not> is_upper_hex_chr CHR ''[''" "\<not> is_upper_hex_chr CHR '']''"
      by (simp_all add: is_upper_hex_chr_def)
    then show "CHR ''/'' \<notin> set e" "CHR ''.'' \<notin> set e" "CHR ''['' \<notin> set e" "CHR '']'' \<notin> set e"
      using ch by auto
  qed
  have "upper_chr CHR '':'' = CHR '':''" by (simp add: upper_chr_def)
  then have "\<forall>c\<in>set e. upper_chr c = c"
    using ch is_upper_hex_chr_props(2) by metis
  then have u: "upper e = e" by (simp add: upper_def map_idI)
  have c: "collapsed_groups ?gs = []"
    using is_valid_ipv6_address_groups(3) [OF len gs'] .
  have "map pad4 ?gs = ?gs" using gs by (simp add: pad4_def map_idI)
  then show "expand_ipv6_address (upper e) = Inr e"
    using u v c e by (simp add: expand_ipv6_address_def expand_groups_def)
qed

lemma expand_canonical:
  assumes "expand_ipv6_address (upper x) = Inr e"
  shows "canonical_ipv6 e"
proof -
  let ?y = "upper x"
  let ?gs = "map pad4 (expand_groups (split_chr CHR '':'' ?y))"
  have v: "is_valid_ipv6_address ?y" and e: "e = join '':'' ?gs"
    using assms by (auto simp: expand_ipv6_address_def split: if_splits)
  note p = expanded_groups_props [OF v]
  have s: "split_chr CHR '':'' e = ?gs"
    unfolding e using p by (rule is_valid_ipv6_address_groups(2))
  have up: "\<forall>c\<in>set ?y. is_hex_chr c \<longrightarrow> is_upper_hex_chr c"
  proof (intro ballI impI)
    fix c assume "c \<in> set ?y" and h: "is_hex_chr c"
    then obtain d where "c = upper_chr d" by (auto simp: upper_def)
    with h show "is_upper_hex_chr c" using upper_chr_hex by blast
  qed
  have "\<forall>g\<in>set (split_chr CHR '':'' ?y). list_all is_upper_hex_chr g"
  proof
    fix g assume g: "g \<in> set (split_chr CHR '':'' ?y)"
    then have "set g \<subseteq> set ?y" using split_chr_chars by blast
    moreover have "list_all is_hex_chr g"
      using v g by (simp add: is_valid_ipv6_address_def Let_def list_all_iff)
    ultimately show "list_all is_upper_hex_chr g" using up by (auto simp: list_all_iff)
  qed
  then have "\<forall>g\<in>set (expand_groups (split_chr CHR '':'' ?y)). list_all is_upper_hex_chr g"
    using set_expand_groups [of "split_chr CHR '':'' ?y"] by auto
  moreover have "is_upper_hex_chr CHR ''0''" by (simp add: is_upper_hex_chr_def)
  ultimately have "\<forall>g\<in>set ?gs. list_all is_upper_hex_chr g"
    by (auto simp: pad4_def list_all_iff)
  with p s show ?thesis by (simp add: canonical_ipv6_def list_all_iff)
qed

subsection \<open>What the constructor builds\<close>

lemma apply_addrspec_built:
  assumes "apply_addrspec (new_rule accept) addrspec = Inr r"
  shows "built (r\<lparr>min_port := 0, max_port := 0\<rparr>) \<and> is_accept r = accept"
  using assms unfolding apply_addrspec_def new_rule_def
  by (auto simp: Let_def built_def dest: get_masked_bits_range expand_canonical
      split: if_splits option.splits sum.splits prod.splits)

lemma apply_portspec_fields:
  assumes "apply_portspec self portspec = Inr r"
  shows "r = self\<lparr>min_port := min_port r, max_port := max_port r\<rparr>"
    and "0 \<le> min_port r" "min_port r \<le> max_port r" "max_port r \<le> 65535"
  using assms unfolding apply_portspec_def
  by (auto simp: is_valid_port_str_def is_valid_port_list_def is_valid_port_int_def
      split: if_splits prod.splits)

lemma built_ports:
  "built (r\<lparr>min_port := 0, max_port := 0\<rparr>) \<Longrightarrow> 0 \<le> lo \<Longrightarrow> lo \<le> hi \<Longrightarrow> hi \<le> 65535
    \<Longrightarrow> built (r\<lparr>min_port := lo, max_port := hi\<rparr>)"
  by (simp add: built_def cong: option.case_cong)

lemma ExitPolicyRule_built:
  assumes "ExitPolicyRule rule = Inr r"
  shows "built r"
proof -
  obtain addrspec portspec self where
    a: "apply_addrspec (new_rule (startswith rule ''accept'')) addrspec = Inr self"
    and p: "apply_portspec self portspec = Inr r"
    using assms unfolding ExitPolicyRule_def new_rule_def
    by (auto simp: Let_def split: if_splits prod.splits sum.splits)
  note f = apply_portspec_fields [OF p]
  have "built (self\<lparr>min_port := 0, max_port := 0\<rparr>)" using apply_addrspec_built [OF a] by simp
  then have "built (self\<lparr>min_port := min_port r, max_port := max_port r\<rparr>)"
    using f(2-4) by (rule built_ports)
  with f(1) show ?thesis by simp
qed

subsection \<open>Parsing the printed parts\<close>

lemma ExitPolicyRule_parse:
  assumes "addrspec \<noteq> []" "\<not> isspace (hd addrspec)" "CHR '':'' \<notin> set portspec"
  shows "ExitPolicyRule ((if accept then ''accept '' else ''reject '') @ addrspec @ '':'' @ portspec) =
    (case apply_addrspec (new_rule accept) addrspec of
       Inl e \<Rightarrow> Inl e
     | Inr self \<Rightarrow> apply_portspec self portspec)"
proof -
  let ?rule = "(if accept then ''accept '' else ''reject '') @ addrspec @ '':'' @ portspec"
  have sw: "startswith ?rule ''accept'' = accept" "startswith ?rule ''accept'' \<or> startswith ?rule ''reject''"
    by (simp_all add: startswith_def)
  have d: "drop 6 ?rule = '' '' @ addrspec @ '':'' @ portspec" by simp
  have l: "lstrip ('' '' @ addrspec @ '':'' @ portspec) = addrspec @ '':'' @ portspec"
    using assms(1,2) by (cases addrspec) (simp_all add: lstrip_def isspace_def)
  have r: "rsplit1 CHR '':'' (addrspec @ '':'' @ portspec) = (addrspec, portspec)"
    using rsplit1_append_sep [OF assms(3), of addrspec] by simp
  show ?thesis
    unfolding ExitPolicyRule_def d Let_def
    using sw l r by (simp add: startswith_def new_rule_def)
qed

lemma apply_portspec_printed:
  assumes "0 \<le> min_port r" "min_port r \<le> max_port r" "max_port r \<le> 65535"
  shows "apply_portspec self (portspec_of r) =
      Inr (self\<lparr>min_port := (if is_port_wildcard r then 1 else min_port r), max_port := max_port r\<rparr>)"
    and "CHR '':'' \<notin> set (portspec_of r)"
proof -
  let ?lo = "str_int (min_port r)" and ?hi = "str_int (max_port r)"
  have hi0: "0 \<le> max_port r" using assms by simp
  note dl = isdigit_str_int [OF assms(1)] and dh = isdigit_str_int [OF hi0]
  note il = int_of_str_str_int [OF assms(1)] and ih = int_of_str_str_int [OF hi0]
  show "CHR '':'' \<notin> set (portspec_of r)"
    using isdigit_no_sep(2) [OF dl] isdigit_no_sep(2) [OF dh] by (simp add: portspec_of_def)
  show "apply_portspec self (portspec_of r) =
      Inr (self\<lparr>min_port := (if is_port_wildcard r then 1 else min_port r), max_port := max_port r\<rparr>)"
  proof (cases "is_port_wildcard r")
    case True
    then show ?thesis by (simp add: portspec_of_def apply_portspec_def is_port_wildcard_def)
  next
    case nw: False
    show ?thesis
    proof (cases "min_port r = max_port r")
      case True
      have "max_port r = 0 \<or> 0 < max_port r" using hi0 by linarith
      then have "is_valid_port_str ?lo True"
        using dl il assms True by (simp add: is_valid_port_str_def is_valid_port_int_def)
      then show ?thesis
        using nw True dl il isdigit_no_sep(5) [OF dl]
        by (simp add: portspec_of_def apply_portspec_def)
    next
      case False
      let ?p = "?lo @ ''-'' @ ?hi"
      have nd: "\<not> isdigit ?p" using isdigit_no_sep(4) [of ?p] by auto
      have ns: "?p \<noteq> ''*''" using isdigit_no_sep(6) [OF dl] isdigit_no_sep(5) [OF dl]
        by (cases ?lo) auto
      have sp: "split1 CHR ''-'' ?p = (?lo, ?hi)"
        using split1_append_sep [OF isdigit_no_sep(4) [OF dl], of ?hi] by simp
      have v: "is_valid_port_list [?lo, ?hi] True"
        using dl dh il ih assms
        by (simp add: is_valid_port_list_def is_valid_port_str_def is_valid_port_int_def) linarith
      show ?thesis
        using nw False nd ns sp v il ih assms(2)
        by (simp add: portspec_of_def apply_portspec_def)
    qed
  qed
qed

lemma apply_addrspec_wildcard:
  "apply_addrspec self ''*'' =
     Inr (self\<lparr>address_type := Some 0, address := None, masked_bits := None\<rparr>)"
  by (simp add: apply_addrspec_def)

lemma apply_addrspec_ipv4:
  assumes "is_valid_ip_address a"
  shows "apply_addrspec self a =
      Inr (self\<lparr>address := Some a, address_type := Some 1, masked_bits := Some 32\<rparr>)" (is ?plain)
    and "0 \<le> b \<Longrightarrow> b \<le> 32 \<Longrightarrow> apply_addrspec self (a @ ''/'' @ str_int b) =
      Inr (self\<lparr>address := Some a, address_type := Some 1, masked_bits := Some b\<rparr>)" (is "_ \<Longrightarrow> _ \<Longrightarrow> ?bits")
    and "is_valid_ip_address m \<Longrightarrow> get_masked_bits m = Inl err \<Longrightarrow> apply_addrspec self (a @ ''/'' @ m) =
      Inr (self\<lparr>address := Some a, address_type := Some 1, mask_str := Some m, masked_bits := None\<rparr>)"
      (is "_ \<Longrightarrow> _ \<Longrightarrow> ?mask")
proof -
  note p = valid_ip_props [OF assms]
  show ?plain using assms p by (simp add: apply_addrspec_def)
  have sp: "split1 CHR ''/'' (a @ ''/'' @ x) = (a, x)" for x
    using split1_append_sep [OF p(1), of x] by simp
  have ns: "a @ ''/'' @ x \<noteq> ''*''" for x using p(4) by (cases a) auto
  {
    assume b: "0 \<le> b" "b \<le> 32"
    note d = isdigit_str_int [OF b(1)]
    have "\<not> is_valid_ip_address (str_int b)"
      using isdigit_no_sep(1) [OF d] by (rule not_valid_ip_no_dot)
    then show ?bits
      using assms sp ns d b int_of_str_str_int [OF b(1)]
      by (simp add: apply_addrspec_def)
  }
  {
    assume "is_valid_ip_address m" "get_masked_bits m = Inl err"
    then show ?mask using assms sp ns by (simp add: apply_addrspec_def)
  }
qed

lemma apply_addrspec_ipv6:
  assumes "canonical_ipv6 e"
  shows "apply_addrspec self (''['' @ e @ '']'') =
      Inr (self\<lparr>address := Some e, address_type := Some 2, masked_bits := Some 128\<rparr>)" (is ?plain)
    and "0 \<le> b \<Longrightarrow> b \<le> 128 \<Longrightarrow> apply_addrspec self (''['' @ e @ '']/'' @ str_int b) =
      Inr (self\<lparr>address := Some e, address_type := Some 2, masked_bits := Some b\<rparr>)" (is "_ \<Longrightarrow> _ \<Longrightarrow> ?bits")
proof -
  note p = canonical_ipv6_props [OF assms]
  let ?a = "''['' @ e @ '']''"
  have ns: "CHR ''/'' \<notin> set ?a" using p(3) by simp
  have nv: "\<not> is_valid_ip_address ?a" using p(4) by (intro not_valid_ip_no_dot) simp
  have sw: "startswith ?a ''[''" "endswith ?a '']''" "slice_inner ?a = e"
    by (simp_all add: startswith_def endswith_def slice_inner_def butlast_append)
  show ?plain
    using ns nv sw p(1,2) by (simp add: apply_addrspec_def del: append.simps)
  {
    assume b: "0 \<le> b" "b \<le> 128"
    note d = isdigit_str_int [OF b(1)]
    have sp: "split1 CHR ''/'' (''['' @ e @ '']/'' @ str_int b) = (?a, str_int b)"
      using split1_append_sep [OF ns, of "str_int b"] by simp
    have in_s: "CHR ''/'' \<in> set (''['' @ e @ '']/'' @ str_int b)" by simp
    have ne: "''['' @ e @ '']/'' @ str_int b \<noteq> ''*''" by simp
    show ?bits
      unfolding apply_addrspec_def
      using in_s ne sp nv sw p(1,2) d b int_of_str_str_int [OF b(1)]
      by (simp del: append.simps)
  }
qed

lemma addrspec_printed:
  assumes "built r"
  shows "\<exists>A. A \<noteq> [] \<and> \<not> isspace (hd A)
    \<and> rule_str r = Inr (label_of r @ A @ '':'' @ portspec_of r)
    \<and> apply_addrspec (new_rule (is_accept r)) A =
        Inr \<lparr>is_micro = False, is_accept = is_accept r, address = address r,
             address_type = address_type r, masked_bits = masked_bits r,
             mask_str = mask_str r, min_port = 0, max_port = 0\<rparr>"
proof -
  have nm: "\<not> is_micro r" using assms by (simp add: built_def)
  from assms consider
    (wild) "address_type r = Some 0" "address r = None" "masked_bits r = None" "mask_str r = None"
  | (v4b) a b where "address_type r = Some 1" "address r = Some a" "is_valid_ip_address a"
      "mask_str r = None" "masked_bits r = Some b" "0 \<le> b" "b \<le> 32"
  | (v4m) a m where "address_type r = Some 1" "address r = Some a" "is_valid_ip_address a"
      "mask_str r = Some m" "masked_bits r = None" "is_valid_ip_address m"
      "\<exists>err. get_masked_bits m = Inl err"
  | (v6) e b where "address_type r = Some 2" "address r = Some e" "canonical_ipv6 e"
      "mask_str r = None" "masked_bits r = Some b" "0 \<le> b" "b \<le> 128"
    unfolding built_def by (auto split: option.splits sum.splits)
  then show ?thesis
  proof cases
    case wild
    have "rule_str r = Inr (label_of r @ ''*'' @ '':'' @ portspec_of r)"
      using nm wild by (simp add: rule_str_def Let_def is_address_wildcard_def label_of_def portspec_of_def)
    moreover have "apply_addrspec (new_rule (is_accept r)) ''*'' =
        Inr \<lparr>is_micro = False, is_accept = is_accept r, address = address r,
             address_type = address_type r, masked_bits = masked_bits r,
             mask_str = mask_str r, min_port = 0, max_port = 0\<rparr>"
      using wild by (simp add: apply_addrspec_wildcard new_rule_def)
    moreover have "''*'' \<noteq> [] \<and> \<not> isspace (hd ''*'')" by (simp add: isspace_def)
    ultimately show ?thesis by blast
  next
    case v4b
    note p = valid_ip_props [OF v4b(3)]
    have t: "get_address_type r = Inr IPv4" "\<not> is_address_wildcard r"
      using nm v4b(1) by (simp_all add: get_address_type_def int_to_address_type_def is_address_wildcard_def)
    show ?thesis
    proof (cases "b = 32")
      case True
      have "rule_str r = Inr (label_of r @ a @ '':'' @ portspec_of r)"
        using t v4b True by (simp add: rule_str_def Let_def label_of_def portspec_of_def)
      moreover have "apply_addrspec (new_rule (is_accept r)) a =
        Inr \<lparr>is_micro = False, is_accept = is_accept r, address = address r,
             address_type = address_type r, masked_bits = masked_bits r,
             mask_str = mask_str r, min_port = 0, max_port = 0\<rparr>"
        using v4b True by (simp add: apply_addrspec_ipv4(1) new_rule_def)
      ultimately show ?thesis using p(4,5) by blast
    next
      case False
      let ?A = "a @ ''/'' @ str_int b"
      have "rule_str r = Inr (label_of r @ ?A @ '':'' @ portspec_of r)"
        using t v4b False by (simp add: rule_str_def Let_def label_of_def portspec_of_def)
      moreover have "apply_addrspec (new_rule (is_accept r)) ?A =
        Inr \<lparr>is_micro = False, is_accept = is_accept r, address = address r,
             address_type = address_type r, masked_bits = masked_bits r,
             mask_str = mask_str r, min_port = 0, max_port = 0\<rparr>"
        using v4b apply_addrspec_ipv4(2) [OF v4b(3,6,7)] by (simp add: new_rule_def)
      moreover have "?A \<noteq> [] \<and> \<not> isspace (hd ?A)" using p(4,5) by (cases a) auto
      ultimately show ?thesis by blast
    qed
  next
    case v4m
    note p = valid_ip_props [OF v4m(3)]
    obtain err where err: "get_masked_bits m = Inl err" using v4m(7) by blast
    have t: "get_address_type r = Inr IPv4" "\<not> is_address_wildcard r"
      using nm v4m(1) by (simp_all add: get_address_type_def int_to_address_type_def is_address_wildcard_def)
    have gm: "rule_get_mask r = Inr (Some m)"
      using nm v4m valid_ip_nonempty [OF v4m(6)] by (simp add: rule_get_mask_def)
    let ?A = "a @ ''/'' @ m"
    have "rule_str r = Inr (label_of r @ ?A @ '':'' @ portspec_of r)"
      using t v4m gm by (simp add: rule_str_def Let_def label_of_def portspec_of_def)
    moreover have "apply_addrspec (new_rule (is_accept r)) ?A =
        Inr \<lparr>is_micro = False, is_accept = is_accept r, address = address r,
             address_type = address_type r, masked_bits = masked_bits r,
             mask_str = mask_str r, min_port = 0, max_port = 0\<rparr>"
      using v4m apply_addrspec_ipv4(3) [OF v4m(3,6) err] by (simp add: new_rule_def)
    moreover have "?A \<noteq> [] \<and> \<not> isspace (hd ?A)" using p(4,5) by (cases a) auto
    ultimately show ?thesis by blast
  next
    case v6
    have t: "get_address_type r = Inr IPv6" "\<not> is_address_wildcard r"
      using nm v6(1) by (simp_all add: get_address_type_def int_to_address_type_def is_address_wildcard_def)
    have sp: "\<not> isspace CHR ''[''" by (simp add: isspace_def)
    show ?thesis
    proof (cases "b = 128")
      case True
      let ?A = "''['' @ e @ '']''"
      have "rule_str r = Inr (label_of r @ ?A @ '':'' @ portspec_of r)"
        using t v6 True by (simp add: rule_str_def Let_def label_of_def portspec_of_def)
      moreover have "apply_addrspec (new_rule (is_accept r)) ?A =
        Inr \<lparr>is_micro = False, is_accept = is_accept r, address = address r,
             address_type = address_type r, masked_bits = masked_bits r,
             mask_str = mask_str r, min_port = 0, max_port = 0\<rparr>"
        using v6 True apply_addrspec_ipv6(1) [OF v6(3)] by (simp add: new_rule_def)
      moreover have "?A \<noteq> [] \<and> \<not> isspace (hd ?A)" using sp by simp
      ultimately show ?thesis by blast
    next
      case False
      let ?A = "''['' @ e @ '']/'' @ str_int b"
      have "rule_str r = Inr (label_of r @ ?A @ '':'' @ portspec_of r)"
        using t v6 False by (simp add: rule_str_def Let_def label_of_def portspec_of_def)
      moreover have "apply_addrspec (new_rule (is_accept r)) ?A =
        Inr \<lparr>is_micro = False, is_accept = is_accept r, address = address r,
             address_type = address_type r, masked_bits = masked_bits r,
             mask_str = mask_str r, min_port = 0, max_port = 0\<rparr>"
        using v6 apply_addrspec_ipv6(2) [OF v6(3,6,7)] by (simp add: new_rule_def)
      moreover have "?A \<noteq> [] \<and> \<not> isspace (hd ?A)" using sp by simp
      ultimately show ?thesis by blast
    qed
  qed
qed

lemma rule_str_reparsed:
  assumes "built r"
  shows "\<exists>s. rule_str r = Inr s \<and>
    ExitPolicyRule s = Inr (r\<lparr>min_port := (if is_port_wildcard r then 1 else min_port r)\<rparr>)"
proof -
  obtain A where A: "A \<noteq> []" "\<not> isspace (hd A)"
    and s: "rule_str r = Inr (label_of r @ A @ '':'' @ portspec_of r)"
    and a: "apply_addrspec (new_rule (is_accept r)) A =
        Inr \<lparr>is_micro = False, is_accept = is_accept r, address = address r,
             address_type = address_type r, masked_bits = masked_bits r,
             mask_str = mask_str r, min_port = 0, max_port = 0\<rparr>"
    using addrspec_printed [OF assms] by blast
  have range: "0 \<le> min_port r" "min_port r \<le> max_port r" "max_port r \<le> 65535" and nm: "\<not> is_micro r"
    using assms by (simp_all add: built_def)
  note p = apply_portspec_printed [OF range]
  have eq: "r\<lparr>min_port := m\<rparr> =
        \<lparr>is_micro = False, is_accept = is_accept r, address = address r,
         address_type = address_type r, masked_bits = masked_bits r,
         mask_str = mask_str r, min_port = m, max_port = max_port r\<rparr>" for m
    using nm by (cases r) simp
  have "ExitPolicyRule (label_of r @ A @ '':'' @ portspec_of r) =
      apply_portspec \<lparr>is_micro = False, is_accept = is_accept r, address = address r,
             address_type = address_type r, masked_bits = masked_bits r,
             mask_str = mask_str r, min_port = 0, max_port = 0\<rparr> (portspec_of r)"
    unfolding label_of_def ExitPolicyRule_parse [OF A p(2)] a by simp
  also have "\<dots> = Inr (r\<lparr>min_port := (if is_port_wildcard r then 1 else min_port r)\<rparr>)"
    unfolding p(1) eq by simp
  finally show ?thesis using s by blast
qed

lemma is_match_wildcard_port:
  assumes "is_port_wildcard r"
  shows "is_match (r\<lparr>min_port := 1\<rparr>) addr port = is_match r addr port"
    and "rule_str (r\<lparr>min_port := 1\<rparr>) = rule_str r"
proof -
  have w: "is_port_wildcard (r\<lparr>min_port := 1\<rparr>)" using assms by (simp add: is_port_wildcard_def)
  have g: "get_address_type (r\<lparr>min_port := 1\<rparr>) = get_address_type r"
    "is_address_wildcard (r\<lparr>min_port := 1\<rparr>) = is_address_wildcard r"
    "rule_get_mask (r\<lparr>min_port := 1\<rparr>) = rule_get_mask r"
    by (simp_all add: get_address_type_def is_address_wildcard_def rule_get_mask_def
        cong: sum.case_cong AddressType.case_cong option.case_cong)
  have b: "get_mask_bin (r\<lparr>min_port := 1\<rparr>) = get_mask_bin r"
    "get_address_bin (r\<lparr>min_port := 1\<rparr>) = get_address_bin r"
    by (simp_all add: get_mask_bin_def get_address_bin_def g fun_eq_iff cong: sum.case_cong option.case_cong bool.case_cong)
  have ma: "match_address (r\<lparr>min_port := 1\<rparr>) = match_address r"
    by (simp add: match_address_def g b fun_eq_iff cong: sum.case_cong option.case_cong bool.case_cong)
  have mp: "match_port (r\<lparr>min_port := 1\<rparr>) = match_port r"
    using assms w by (simp add: match_port_def fun_eq_iff cong: sum.case_cong option.case_cong bool.case_cong)
  have mr: "match_rest (r\<lparr>min_port := 1\<rparr>) = match_rest r"
    by (simp add: match_rest_def ma mp fun_eq_iff cong: sum.case_cong option.case_cong bool.case_cong)
  show "is_match (r\<lparr>min_port := 1\<rparr>) addr port = is_match r addr port"
    by (simp add: is_match_def g mr cong: sum.case_cong option.case_cong bool.case_cong if_cong)
  show "rule_str (r\<lparr>min_port := 1\<rparr>) = rule_str r"
    using assms w by (simp add: rule_str_def g cong: sum.case_cong option.case_cong bool.case_cong if_cong)
qed

text \<open>
  C3: the string form of a rule that the constructor accepted is accepted by the
  constructor, prints as itself again, and the rule parsed from it gives the result of the
  original rule in \<open>is_match\<close> on every address and port, an exception included.
\<close>

theorem rule_str_roundtrip:
  assumes "ExitPolicyRule rule = Inr r"
  shows "\<exists>s r'. rule_str r = Inr s \<and> ExitPolicyRule s = Inr r' \<and> rule_str r' = Inr s
    \<and> (\<forall>addr port. is_match r' addr port = is_match r addr port)"
proof -
  have b: "built r" using assms by (rule ExitPolicyRule_built)
  let ?r' = "r\<lparr>min_port := (if is_port_wildcard r then 1 else min_port r)\<rparr>"
  obtain s where s: "rule_str r = Inr s" "ExitPolicyRule s = Inr ?r'"
    using rule_str_reparsed [OF b] by blast
  have "rule_str ?r' = rule_str r \<and> (\<forall>addr port. is_match ?r' addr port = is_match r addr port)"
    using is_match_wildcard_port by (cases "is_port_wildcard r") simp_all
  with s show ?thesis by auto
qed

theorem rule_str_roundtrip_witness:
  "ExitPolicyRule ''reject [::1]:22'' =
     Inr \<lparr>is_micro = False, is_accept = False,
          address = Some ''0000:0000:0000:0000:0000:0000:0000:0001'', address_type = Some 2,
          masked_bits = Some 128, mask_str = None, min_port = 22, max_port = 22\<rparr> \<and>
   rule_str \<lparr>is_micro = False, is_accept = False,
          address = Some ''0000:0000:0000:0000:0000:0000:0000:0001'', address_type = Some 2,
          masked_bits = Some 128, mask_str = None, min_port = 22, max_port = 22\<rparr>
     = Inr ''reject [0000:0000:0000:0000:0000:0000:0000:0001]:22'' \<and>
   (\<exists>s r'. rule_str \<lparr>is_micro = False, is_accept = False,
          address = Some ''0000:0000:0000:0000:0000:0000:0000:0001'', address_type = Some 2,
          masked_bits = Some 128, mask_str = None, min_port = 22, max_port = 22\<rparr> = Inr s
      \<and> ExitPolicyRule s = Inr r' \<and> rule_str r' = Inr s
      \<and> (\<forall>addr port. is_match r' addr port =
            is_match \<lparr>is_micro = False, is_accept = False,
          address = Some ''0000:0000:0000:0000:0000:0000:0000:0001'', address_type = Some 2,
          masked_bits = Some 128, mask_str = None, min_port = 22, max_port = 22\<rparr> addr port))"
proof -
  have h: "ExitPolicyRule ''reject [::1]:22'' =
     Inr \<lparr>is_micro = False, is_accept = False,
          address = Some ''0000:0000:0000:0000:0000:0000:0000:0001'', address_type = Some 2,
          masked_bits = Some 128, mask_str = None, min_port = 22, max_port = 22\<rparr>"
    by code_simp
  have s: "rule_str \<lparr>is_micro = False, is_accept = False,
          address = Some ''0000:0000:0000:0000:0000:0000:0000:0001'', address_type = Some 2,
          masked_bits = Some 128, mask_str = None, min_port = 22, max_port = 22\<rparr>
     = Inr ''reject [0000:0000:0000:0000:0000:0000:0000:0001]:22''"
    by code_simp
  show ?thesis using h s rule_str_roundtrip [OF h] by blast
qed

end
